theory Spec2Isabelle
  imports Main
begin

section \<open>JavaScript values\<close>

text \<open>
  The service handles plain data objects. A property value is modelled by a
  JavaScript primitive: \<open>undefined\<close>, \<open>null\<close>, a boolean, a Number or a string.
  The Numbers of the model are the integers from \<open>-2^53\<close> to \<open>2^53\<close>: each of
  them is a Number (a double), and \<open>String\<close> prints each of them in decimal
  notation. Strings are sequences of code units below 256, so that the white
  space of \<open>String.prototype.trim\<close> and of the regular expression class \<open>\s\<close>
  is the set of code units 9 to 13, 32 and 160. On these values the strict
  equality \<open>===\<close> is equality.
\<close>

definition limit :: int where
  "limit = 9007199254740992"

typedef number = "{n :: int. - 9007199254740992 \<le> n \<and> n \<le> 9007199254740992}"
  morphisms int_of N
  by (rule exI[of _ 0]) simp

text \<open>
  \<open>n + 1\<close> on a Number, as \<open>this.nextId++\<close> and \<open>Math.max(...) + 1\<close> compute it:
  exact below \<open>2^53\<close>; at \<open>2^53\<close> the sum \<open>2^53 + 1\<close> is not a double and is
  rounded, to the even neighbour \<open>2^53\<close>.
\<close>

definition succ :: "number \<Rightarrow> number" where
  "succ n = N (min (int_of n + 1) limit)"

text \<open>
  The Number that an integer is rounded to, when it is one of the model:
  the integer itself in the range, and \<open>2^53\<close> for \<open>2^53 + 1\<close> (a tie, rounded
  to even). Every integer further out is rounded to a Number outside the range.
\<close>

definition nearest :: "int \<Rightarrow> number option" where
  "nearest x =
     (if - limit \<le> x \<and> x \<le> limit then Some (N x)
      else if x = limit + 1 then Some (N limit)
      else if x = - limit - 1 then Some (N (- limit))
      else None)"

datatype jsval = Undefined | Null | Bool bool | Num number | Str string

text \<open>An object is a finite map from property names to values; reading a
  property the object does not have gives \<open>undefined\<close>.\<close>

type_synonym jsobj = "string \<rightharpoonup> jsval"

definition get :: "jsobj \<Rightarrow> string \<Rightarrow> jsval" where
  "get obj k = (case obj k of None \<Rightarrow> Undefined | Some v \<Rightarrow> v)"

text \<open>\<open>ToBoolean\<close>: what \<open>!v\<close>, \<open>v && ...\<close> and \<open>v || ...\<close> test.\<close>

fun truthy :: "jsval \<Rightarrow> bool" where
  "truthy Undefined = False"
| "truthy Null = False"
| "truthy (Bool b) = b"
| "truthy (Num n) = (int_of n \<noteq> 0)"
| "truthy (Str s) = (s \<noteq> [])"

subsection \<open>Strings\<close>

definition is_ws :: "char \<Rightarrow> bool" where
  "is_ws c = (of_char c \<in> {9, 10, 11, 12, 13, 32, 160 :: nat})"

definition trim :: "string \<Rightarrow> string" where
  "trim s = rev (dropWhile is_ws (rev (dropWhile is_ws s)))"

text \<open>\<open>Array.prototype.join\<close> on an array of strings.\<close>

fun join_with :: "string \<Rightarrow> string list \<Rightarrow> string" where
  "join_with sep [] = []"
| "join_with sep [x] = x"
| "join_with sep (x # y # ys) = x @ sep @ join_with sep (y # ys)"

definition digit_char :: "nat \<Rightarrow> char" where
  "digit_char d = ''0123456789'' ! d"

fun digits :: "nat \<Rightarrow> string" where
  "digits n = (if n < 10 then [digit_char n] else digits (n div 10) @ [digit_char (n mod 10)])"

declare digits.simps [simp del]

text \<open>\<open>ToString\<close> on the primitives.\<close>

fun to_string :: "jsval \<Rightarrow> string" where
  "to_string Undefined = ''undefined''"
| "to_string Null = ''null''"
| "to_string (Bool b) = (if b then ''true'' else ''false'')"
| "to_string (Num n) =
     (if int_of n < 0 then CHR ''-'' # digits (nat (- int_of n)) else digits (nat (int_of n)))"
| "to_string (Str s) = s"

subsection \<open>parseInt\<close>

text \<open>
  \<open>parseInt(x)\<close> with no radix: the argument is converted to a string, leading
  white space is skipped, a sign is read, the prefix \<open>0x\<close> or \<open>0X\<close> selects
  radix 16, and the longest run of digits of the radix is the value. With no
  digit the result is \<open>NaN\<close>, here \<open>None\<close>. The value is given as the integer
  that the digits denote; the Number returned is this integer rounded.
\<close>

definition digit_val :: "char \<Rightarrow> nat option" where
  "digit_val c =
     (let n = (of_char c :: nat) in
      if 48 \<le> n \<and> n \<le> 57 then Some (n - 48)
      else if 97 \<le> n \<and> n \<le> 122 then Some (n - 87)
      else if 65 \<le> n \<and> n \<le> 90 then Some (n - 55)
      else None)"

definition is_digit :: "nat \<Rightarrow> char \<Rightarrow> bool" where
  "is_digit R c = (case digit_val c of None \<Rightarrow> False | Some d \<Rightarrow> d < R)"

definition digits_value :: "nat \<Rightarrow> string \<Rightarrow> nat" where
  "digits_value R z = foldl (\<lambda>a c. a * R + (case digit_val c of None \<Rightarrow> 0 | Some d \<Rightarrow> d)) 0 z"

definition starts_with :: "string \<Rightarrow> string \<Rightarrow> bool" where
  "starts_with p s = (take (length p) s = p)"

definition parseInt_string :: "string \<Rightarrow> int option" where
  "parseInt_string inputString =
     (let S = dropWhile is_ws inputString;
          neg = starts_with ''-'' S;
          S1 = (if starts_with ''-'' S \<or> starts_with ''+'' S then tl S else S);
          hex = (starts_with ''0x'' S1 \<or> starts_with ''0X'' S1);
          R = (if hex then 16 else 10);
          S2 = (if hex then drop 2 S1 else S1);
          Z = takeWhile (is_digit R) S2
      in if Z = [] then None
         else Some ((if neg then - 1 else 1) * int (digits_value R Z)))"

definition parseInt :: "jsval \<Rightarrow> int option" where
  "parseInt x = parseInt_string (to_string x)"

section \<open>Validation\<close>

record validation =
  isValid :: bool
  errors :: "string list"

text \<open>
  What a call can throw: an \<open>Error\<close> made by the service with its message, a
  \<open>TypeError\<close> of the engine (calling \<open>.trim()\<close> on a value that has no such
  method) and a \<open>SyntaxError\<close> of \<open>JSON.parse\<close>. The text of an engine error is
  chosen by the engine; its \<open>message\<close> is kept abstract.
\<close>

datatype exn = Error string | TypeError | SyntaxError

datatype message = Msg string | TypeErrorText | SyntaxErrorText

fun message_of :: "exn \<Rightarrow> message" where
  "message_of (Error m) = Msg m"
| "message_of TypeError = TypeErrorText"
| "message_of SyntaxError = SyntaxErrorText"

text \<open>
  \<open>/^[^\s@]+@[^\s@]+\.[^\s@]+$/.test(email)\<close>. The first class cannot cross
  an \<open>@\<close>, so the local part is the longest prefix without white space and
  \<open>@\<close>; the rest after the \<open>@\<close> must consist of such characters too and has
  a dot that is neither its first nor its last character.
\<close>

definition email_char :: "char \<Rightarrow> bool" where
  "email_char c = (\<not> is_ws c \<and> c \<noteq> CHR ''@'')"

definition emailRegex_test :: "string \<Rightarrow> bool" where
  "emailRegex_test s =
     (let local = takeWhile email_char s; rest = dropWhile email_char s
      in local \<noteq> [] \<and> rest \<noteq> [] \<and> hd rest = CHR ''@'' \<and>
         list_all email_char (tl rest) \<and> CHR ''.'' \<in> set (butlast (tl (tl rest))))"

definition isValidEmail :: "jsval \<Rightarrow> bool" where
  "isValidEmail email = emailRegex_test (to_string email)"

definition required :: "string list" where
  "required = [''firstName'', ''lastName'', ''email'', ''phone'', ''userType'']"

definition validTypes :: "jsval list" where
  "validTypes = [Str ''client'', Str ''provider'', Str ''admin'']"

definition validStatuses :: "jsval list" where
  "validStatuses = [Str ''active'', Str ''inactive'']"

text \<open>
  The \<open>forEach\<close> over the required fields. \<open>!v || v.trim() === ''\<close>: a falsy
  value is reported; a string is trimmed; any other truthy value has no
  \<open>trim\<close> method and the call throws.
\<close>

fun check_required :: "jsobj \<Rightarrow> string list \<Rightarrow> string list \<Rightarrow> exn + string list" where
  "check_required userData [] errs = Inr errs"
| "check_required userData (field # rest) errs =
     (if \<not> truthy (get userData field)
      then check_required userData rest (errs @ [field @ '' is required''])
      else case get userData field of
             Str s \<Rightarrow>
               if trim s = [] then check_required userData rest (errs @ [field @ '' is required''])
               else check_required userData rest errs
           | _ \<Rightarrow> Inl TypeError)"

definition validateUser :: "jsobj \<Rightarrow> exn + validation" where
  "validateUser userData =
     (case check_required userData required [] of
        Inl e \<Rightarrow> Inl e
      | Inr errs1 \<Rightarrow>
          let errs2 = (if truthy (get userData ''email'') \<and> \<not> isValidEmail (get userData ''email'')
                       then errs1 @ [''Invalid email format''] else errs1);
              errs3 = (if truthy (get userData ''userType'') \<and> get userData ''userType'' \<notin> set validTypes
                       then errs2 @ [''Invalid user type''] else errs2);
              errs4 = (if truthy (get userData ''status'') \<and> get userData ''status'' \<notin> set validStatuses
                       then errs3 @ [''Invalid status''] else errs3)
          in Inr \<lparr>isValid = (length errs4 = 0), errors = errs4\<rparr>)"

section \<open>The service\<close>

text \<open>
  Events carry the created, deleted or updated record, the record collection,
  the error description or the import results.
\<close>

datatype payload =
    PUser jsobj
  | PUsers "jsobj list"
  | PUpdated jsobj jsobj
  | PError message string
  | PResults "jsobj list" "(jsobj \<times> message) list"

record notification =
  event :: string
  data :: payload
  recipients :: "nat list"

text \<open>What is held by the slot \<open>appointme_users\<close> of the local storage: nothing
  (or the empty string, which \<open>if (stored)\<close> treats alike), a text that is not
  JSON, or the text of an array of objects, modelled by the array it denotes.\<close>

datatype stored = Absent | Unparsable | Doc "jsobj list"

text \<open>
  The state has the three fields of a \<open>UserService\<close> and the part of the
  environment it acts on: the storage slot, the number of readings taken from
  the system clock, and the calls of \<open>notify\<close> made so far, each with the
  subscribers it was delivered to. A subscriber is a callback, named by a
  number. In \<open>notify\<close> and the operations defined with it the subscribers
  return normally; the subsection on subscribers that throw has the
  operations without this.
\<close>

record state =
  users :: "jsobj list"
  nextId :: number
  observers :: "nat list"
  storage :: stored
  ticks :: nat
  trace :: "notification list"

definition constructor :: "stored \<Rightarrow> state" where
  "constructor slot =
     \<lparr>users = [], nextId = N 1, observers = [], storage = slot, ticks = 0, trace = []\<rparr>"

definition subscribe :: "nat \<Rightarrow> state \<Rightarrow> state" where
  "subscribe callback s = s\<lparr>observers := observers s @ [callback]\<rparr>"

definition unsubscribe :: "nat \<Rightarrow> state \<Rightarrow> state" where
  "unsubscribe callback s = s\<lparr>observers := filter (\<lambda>obs. obs \<noteq> callback) (observers s)\<rparr>"

definition notify :: "string \<Rightarrow> payload \<Rightarrow> state \<Rightarrow> state" where
  "notify ev d s = s\<lparr>trace := trace s @ [\<lparr>event = ev, data = d, recipients = observers s\<rparr>]\<rparr>"

text \<open>\<open>new Date().toISOString()\<close>: the \<open>k\<close>-th reading of the clock is \<open>clock k\<close>.\<close>

definition now :: "(nat \<Rightarrow> string) \<Rightarrow> state \<Rightarrow> jsval \<times> state" where
  "now clock s = (Str (clock (ticks s)), s\<lparr>ticks := Suc (ticks s)\<rparr>)"

datatype 'a outcome = Success 'a | Failure message

definition findUserByEmail :: "state \<Rightarrow> jsval \<Rightarrow> jsobj option" where
  "findUserByEmail s email = find (\<lambda>user. get user ''email'' = email) (users s)"

text \<open>\<open>user.id === parseInt(id)\<close>; \<open>NaN\<close> is equal to nothing, and so is a
  Number outside the range of the model.\<close>

definition id_is :: "int option \<Rightarrow> jsobj \<Rightarrow> bool" where
  "id_is n user =
     (case n of
        None \<Rightarrow> False
      | Some x \<Rightarrow> (case nearest x of None \<Rightarrow> False | Some k \<Rightarrow> get user ''id'' = Num k))"

fun findIndex :: "('a \<Rightarrow> bool) \<Rightarrow> 'a list \<Rightarrow> nat option" where
  "findIndex P [] = None"
| "findIndex P (x # xs) = (if P x then Some 0 else map_option Suc (findIndex P xs))"

text \<open>The bodies of the \<open>try\<close> blocks, when the subscribers return (the case
  of subscribers that throw follows below). Every \<open>throw\<close> then comes before
  the first assignment, so a thrown exception leaves the state as it was.\<close>

definition createUser_try :: "(nat \<Rightarrow> string) \<Rightarrow> state \<Rightarrow> jsobj \<Rightarrow> exn + jsobj \<times> state" where
  "createUser_try clock s userData =
     (case validateUser userData of
        Inl e \<Rightarrow> Inl e
      | Inr v \<Rightarrow>
          if \<not> isValid v then Inl (Error (join_with '', '' (errors v)))
          else if findUserByEmail s (get userData ''email'') \<noteq> None
          then Inl (Error ''A user with this email already exists'')
          else
            let (createdAt, s1) = now clock (s\<lparr>nextId := succ (nextId s)\<rparr>);
                (lastActive, s2) = now clock s1;
                newUser = ([''id'' \<mapsto> Num (nextId s)] ++ userData)
                            (''createdAt'' \<mapsto> createdAt,
                             ''lastActive'' \<mapsto> lastActive,
                             ''status'' \<mapsto> (if truthy (get userData ''status'')
                                            then get userData ''status'' else Str ''active''));
                s3 = s2\<lparr>users := users s2 @ [newUser]\<rparr>;
                s4 = notify ''userCreated'' (PUser newUser) s3;
                s5 = notify ''usersChanged'' (PUsers (users s4)) s4
            in Inr (newUser, s5))"

definition createUser :: "(nat \<Rightarrow> string) \<Rightarrow> state \<Rightarrow> jsobj \<Rightarrow> jsobj outcome \<times> state" where
  "createUser clock s userData =
     (case createUser_try clock s userData of
        Inr (newUser, s') \<Rightarrow> (Success newUser, s')
      | Inl error \<Rightarrow>
          (Failure (message_of error),
           notify ''error'' (PError (message_of error) ''create'') s))"

definition updateUser_try ::
  "(nat \<Rightarrow> string) \<Rightarrow> state \<Rightarrow> jsval \<Rightarrow> jsobj \<Rightarrow> exn + jsobj \<times> state" where
  "updateUser_try clock s ident userData =
     (case findIndex (id_is (parseInt ident)) (users s) of
        None \<Rightarrow> Inl (Error ''User not found'')
      | Some userIndex \<Rightarrow>
          (case validateUser userData of
             Inl e \<Rightarrow> Inl e
           | Inr v \<Rightarrow>
               if \<not> isValid v then Inl (Error (join_with '', '' (errors v)))
               else if (case findUserByEmail s (get userData ''email'') of
                          None \<Rightarrow> False
                        | Some existingUser \<Rightarrow> \<not> id_is (parseInt ident) existingUser)
               then Inl (Error ''A user with this email already exists'')
               else
                 let originalUser = users s ! userIndex;
                     (lastModified, s1) = now clock s;
                     updated = (users s ! userIndex ++ userData)(''lastModified'' \<mapsto> lastModified);
                     s2 = s1\<lparr>users := (users s1)[userIndex := updated]\<rparr>;
                     s3 = notify ''userUpdated'' (PUpdated originalUser updated) s2;
                     s4 = notify ''usersChanged'' (PUsers (users s3)) s3
                 in Inr (updated, s4)))"

definition updateUser :: "(nat \<Rightarrow> string) \<Rightarrow> state \<Rightarrow> jsval \<Rightarrow> jsobj \<Rightarrow> jsobj outcome \<times> state" where
  "updateUser clock s ident userData =
     (case updateUser_try clock s ident userData of
        Inr (updated, s') \<Rightarrow> (Success updated, s')
      | Inl error \<Rightarrow>
          (Failure (message_of error),
           notify ''error'' (PError (message_of error) ''update'') s))"

text \<open>\<open>this.users.splice(userIndex, 1)\<close>\<close>

definition splice1 :: "nat \<Rightarrow> 'a list \<Rightarrow> 'a list" where
  "splice1 i xs = take i xs @ drop (Suc i) xs"

definition deleteUser_try :: "state \<Rightarrow> jsval \<Rightarrow> exn + jsobj \<times> state" where
  "deleteUser_try s ident =
     (case findIndex (id_is (parseInt ident)) (users s) of
        None \<Rightarrow> Inl (Error ''User not found'')
      | Some userIndex \<Rightarrow>
          let deletedUser = users s ! userIndex;
              s1 = s\<lparr>users := splice1 userIndex (users s)\<rparr>;
              s2 = notify ''userDeleted'' (PUser deletedUser) s1;
              s3 = notify ''usersChanged'' (PUsers (users s2)) s2
          in Inr (deletedUser, s3))"

definition deleteUser :: "state \<Rightarrow> jsval \<Rightarrow> jsobj outcome \<times> state" where
  "deleteUser s ident =
     (case deleteUser_try s ident of
        Inr (deletedUser, s') \<Rightarrow> (Success deletedUser, s')
      | Inl error \<Rightarrow>
          (Failure (message_of error),
           notify ''error'' (PError (message_of error) ''delete'') s))"

subsection \<open>Subscribers that throw\<close>

text \<open>
  A subscriber is a function of the caller and may throw. What the subscribers
  do is given by a behaviour: for a callback, the notifications made before,
  the event and its data, either \<open>None\<close> (it returns) or the exception it
  throws. \<open>forEach\<close> calls the subscribers in the order of their registration
  and is left by the first exception: the subscribers after it are not called.
  (A callback is still taken not to call back into the service and not to
  change the objects it is handed.) The definitions above are the case where
  every subscriber returns, as \<open>createUser_call_quiet\<close> and its companions
  state.
\<close>

type_synonym behaviour = "nat \<Rightarrow> notification list \<Rightarrow> string \<Rightarrow> payload \<Rightarrow> exn option"

fun forEach :: "(nat \<Rightarrow> exn option) \<Rightarrow> nat list \<Rightarrow> nat list \<times> exn option" where
  "forEach f [] = ([], None)"
| "forEach f (callback # rest) =
     (case f callback of
        Some e \<Rightarrow> ([callback], Some e)
      | None \<Rightarrow> (case forEach f rest of (called, r) \<Rightarrow> (callback # called, r)))"

definition notify_call :: "behaviour \<Rightarrow> string \<Rightarrow> payload \<Rightarrow> state \<Rightarrow> exn option \<times> state" where
  "notify_call b ev d s =
     (case forEach (\<lambda>callback. b callback (trace s) ev d) (observers s) of
        (called, r) \<Rightarrow>
          (r, s\<lparr>trace := trace s @ [\<lparr>event = ev, data = d, recipients = called\<rparr>]\<rparr>))"

text \<open>The operations are \<open>async\<close>: a call gives a promise, which is fulfilled
  with the value returned or rejected with the exception that leaves the
  function.\<close>

datatype 'a promise = Fulfilled 'a | Rejected exn

text \<open>The \<open>try\<close> blocks with such subscribers: the value or the exception they
  end with, and the state they leave. An exception of a subscriber comes after
  the store has been changed.\<close>

definition createUser_block ::
  "behaviour \<Rightarrow> (nat \<Rightarrow> string) \<Rightarrow> state \<Rightarrow> jsobj \<Rightarrow> (exn + jsobj) \<times> state" where
  "createUser_block b clock s userData =
     (case validateUser userData of
        Inl e \<Rightarrow> (Inl e, s)
      | Inr v \<Rightarrow>
          if \<not> isValid v then (Inl (Error (join_with '', '' (errors v))), s)
          else if findUserByEmail s (get userData ''email'') \<noteq> None
          then (Inl (Error ''A user with this email already exists''), s)
          else
            let (createdAt, s1) = now clock (s\<lparr>nextId := succ (nextId s)\<rparr>);
                (lastActive, s2) = now clock s1;
                newUser = ([''id'' \<mapsto> Num (nextId s)] ++ userData)
                            (''createdAt'' \<mapsto> createdAt,
                             ''lastActive'' \<mapsto> lastActive,
                             ''status'' \<mapsto> (if truthy (get userData ''status'')
                                            then get userData ''status'' else Str ''active''));
                s3 = s2\<lparr>users := users s2 @ [newUser]\<rparr>
            in case notify_call b ''userCreated'' (PUser newUser) s3 of
                 (Some e, s4) \<Rightarrow> (Inl e, s4)
               | (None, s4) \<Rightarrow>
                   (case notify_call b ''usersChanged'' (PUsers (users s4)) s4 of
                      (Some e, s5) \<Rightarrow> (Inl e, s5)
                    | (None, s5) \<Rightarrow> (Inr newUser, s5)))"

definition updateUser_block ::
  "behaviour \<Rightarrow> (nat \<Rightarrow> string) \<Rightarrow> state \<Rightarrow> jsval \<Rightarrow> jsobj \<Rightarrow> (exn + jsobj) \<times> state" where
  "updateUser_block b clock s ident userData =
     (case findIndex (id_is (parseInt ident)) (users s) of
        None \<Rightarrow> (Inl (Error ''User not found''), s)
      | Some userIndex \<Rightarrow>
          (case validateUser userData of
             Inl e \<Rightarrow> (Inl e, s)
           | Inr v \<Rightarrow>
               if \<not> isValid v then (Inl (Error (join_with '', '' (errors v))), s)
               else if (case findUserByEmail s (get userData ''email'') of
                          None \<Rightarrow> False
                        | Some existingUser \<Rightarrow> \<not> id_is (parseInt ident) existingUser)
               then (Inl (Error ''A user with this email already exists''), s)
               else
                 let originalUser = users s ! userIndex;
                     (lastModified, s1) = now clock s;
                     updated = (users s ! userIndex ++ userData)(''lastModified'' \<mapsto> lastModified);
                     s2 = s1\<lparr>users := (users s1)[userIndex := updated]\<rparr>
                 in case notify_call b ''userUpdated'' (PUpdated originalUser updated) s2 of
                      (Some e, s3) \<Rightarrow> (Inl e, s3)
                    | (None, s3) \<Rightarrow>
                        (case notify_call b ''usersChanged'' (PUsers (users s3)) s3 of
                           (Some e, s4) \<Rightarrow> (Inl e, s4)
                         | (None, s4) \<Rightarrow> (Inr updated, s4))))"

definition deleteUser_block :: "behaviour \<Rightarrow> state \<Rightarrow> jsval \<Rightarrow> (exn + jsobj) \<times> state" where
  "deleteUser_block b s ident =
     (case findIndex (id_is (parseInt ident)) (users s) of
        None \<Rightarrow> (Inl (Error ''User not found''), s)
      | Some userIndex \<Rightarrow>
          let deletedUser = users s ! userIndex;
              s1 = s\<lparr>users := splice1 userIndex (users s)\<rparr>
          in case notify_call b ''userDeleted'' (PUser deletedUser) s1 of
               (Some e, s2) \<Rightarrow> (Inl e, s2)
             | (None, s2) \<Rightarrow>
                 (case notify_call b ''usersChanged'' (PUsers (users s2)) s2 of
                    (Some e, s3) \<Rightarrow> (Inl e, s3)
                  | (None, s3) \<Rightarrow> (Inr deletedUser, s3)))"

text \<open>
  The \<open>return\<close> of the \<open>try\<close> block and the \<open>catch\<close> block, which is the same
  in the three operations but for the type it reports: the \<open>error\<close> event is
  delivered in the state that the \<open>try\<close> block has left, and an exception of a
  subscriber thrown there leaves the function.
\<close>

definition settle ::
  "behaviour \<Rightarrow> string \<Rightarrow> (exn + jsobj) \<times> state \<Rightarrow> jsobj outcome promise \<times> state" where
  "settle b type r =
     (case r of
        (Inr result, s') \<Rightarrow> (Fulfilled (Success result), s')
      | (Inl error, s') \<Rightarrow>
          (case notify_call b ''error'' (PError (message_of error) type) s' of
             (None, s'') \<Rightarrow> (Fulfilled (Failure (message_of error)), s'')
           | (Some e, s'') \<Rightarrow> (Rejected e, s'')))"

definition createUser_call ::
  "behaviour \<Rightarrow> (nat \<Rightarrow> string) \<Rightarrow> state \<Rightarrow> jsobj \<Rightarrow> jsobj outcome promise \<times> state" where
  "createUser_call b clock s userData = settle b ''create'' (createUser_block b clock s userData)"

definition updateUser_call ::
  "behaviour \<Rightarrow> (nat \<Rightarrow> string) \<Rightarrow> state \<Rightarrow> jsval \<Rightarrow> jsobj \<Rightarrow> jsobj outcome promise \<times> state" where
  "updateUser_call b clock s ident userData =
     settle b ''update'' (updateUser_block b clock s ident userData)"

definition deleteUser_call ::
  "behaviour \<Rightarrow> state \<Rightarrow> jsval \<Rightarrow> jsobj outcome promise \<times> state" where
  "deleteUser_call b s ident = settle b ''delete'' (deleteUser_block b s ident)"

text \<open>The queries; \<open>find\<close> gives \<open>None\<close> where the source gives \<open>undefined\<close>.\<close>

definition getUserById :: "state \<Rightarrow> jsval \<Rightarrow> jsobj option" where
  "getUserById s ident = find (id_is (parseInt ident)) (users s)"

definition getUserByEmail :: "state \<Rightarrow> jsval \<Rightarrow> jsobj option" where
  "getUserByEmail s email = find (\<lambda>user. get user ''email'' = email) (users s)"

subsection \<open>Bulk import\<close>

record results =
  success :: "jsobj list"
  failed :: "(jsobj \<times> message) list"

text \<open>The \<open>for ... of\<close> loop of \<open>importUsers\<close>, with the results collected so far.\<close>

fun import_loop ::
  "(nat \<Rightarrow> string) \<Rightarrow> jsobj list \<Rightarrow> results \<Rightarrow> state \<Rightarrow> results \<times> state" where
  "import_loop clock [] res s = (res, s)"
| "import_loop clock (userData # usersData) res s =
     (case createUser clock s userData of
        (Success newUser, s') \<Rightarrow>
          import_loop clock usersData (res\<lparr>success := success res @ [newUser]\<rparr>) s'
      | (Failure error, s') \<Rightarrow>
          import_loop clock usersData (res\<lparr>failed := failed res @ [(userData, error)]\<rparr>) s')"

definition importUsers :: "(nat \<Rightarrow> string) \<Rightarrow> state \<Rightarrow> jsobj list \<Rightarrow> results \<times> state" where
  "importUsers clock s usersData =
     (let (res, s') = import_loop clock usersData \<lparr>success = [], failed = []\<rparr> s
      in (res, notify ''bulkImport'' (PResults (success res) (failed res)) s'))"

subsection \<open>Persistence\<close>

text \<open>
  \<open>JSON.stringify\<close> leaves out the properties whose value is \<open>undefined\<close> and
  writes every other primitive so that \<open>JSON.parse\<close> reads it back. The text
  of an array is never empty, so \<open>if (stored)\<close> does not take what
  \<open>saveUsers\<close> has written for a missing value. The slot is taken to accept
  every write.
\<close>

definition without_undefined :: "jsobj \<Rightarrow> jsobj" where
  "without_undefined obj = (\<lambda>k. case obj k of Some Undefined \<Rightarrow> None | v \<Rightarrow> v)"

definition JSON_stringify :: "jsobj list \<Rightarrow> stored" where
  "JSON_stringify us = Doc (map without_undefined us)"

fun JSON_parse :: "stored \<Rightarrow> exn + jsobj list" where
  "JSON_parse (Doc us) = Inr us"
| "JSON_parse _ = Inl SyntaxError"

definition sampleUsers :: "jsobj list" where
  "sampleUsers =
     [[''firstName'' \<mapsto> Str ''John'', ''lastName'' \<mapsto> Str ''Doe'',
       ''email'' \<mapsto> Str ''john.doe@example.com'', ''phone'' \<mapsto> Str ''+1 (555) 123-4567'',
       ''userType'' \<mapsto> Str ''client'', ''status'' \<mapsto> Str ''active''],
      [''firstName'' \<mapsto> Str ''Dr. Sarah'', ''lastName'' \<mapsto> Str ''Smith'',
       ''email'' \<mapsto> Str ''sarah.smith@clinic.com'', ''phone'' \<mapsto> Str ''+1 (555) 987-6543'',
       ''userType'' \<mapsto> Str ''provider'', ''status'' \<mapsto> Str ''active''],
      [''firstName'' \<mapsto> Str ''Admin'', ''lastName'' \<mapsto> Str ''User'',
       ''email'' \<mapsto> Str ''admin@appointme.com'', ''phone'' \<mapsto> Str ''+1 (555) 000-0000'',
       ''userType'' \<mapsto> Str ''admin'', ''status'' \<mapsto> Str ''active'']]"

fun create_each :: "(nat \<Rightarrow> string) \<Rightarrow> jsobj list \<Rightarrow> state \<Rightarrow> state" where
  "create_each clock [] s = s"
| "create_each clock (userData # rest) s = create_each clock rest (snd (createUser clock s userData))"

definition loadSampleData :: "(nat \<Rightarrow> string) \<Rightarrow> state \<Rightarrow> state" where
  "loadSampleData clock s = create_each clock sampleUsers s"

text \<open>
  \<open>Math.max(...this.users.map(u => u.id), 0) + 1\<close> converts every id to a
  Number. The conversion is modelled for the ids that are Numbers, \<open>null\<close> or
  booleans. With an id that is absent the code computes \<open>NaN\<close>, and with an id
  that is a string the Number the string converts to, which need not be an
  integer: such a counter is not a Number of the model, and the model of
  \<open>loadUsers\<close> gives \<open>None\<close> for a slot with such ids.
\<close>

fun to_number :: "jsval \<Rightarrow> number option" where
  "to_number (Num n) = Some n"
| "to_number Null = Some (N 0)"
| "to_number (Bool b) = Some (if b then N 1 else N 0)"
| "to_number _ = None"

definition max_number :: "number \<Rightarrow> number \<Rightarrow> number" where
  "max_number a b = (if int_of a \<le> int_of b then b else a)"

fun max_with_zero :: "jsval list \<Rightarrow> number option" where
  "max_with_zero [] = Some (N 0)"
| "max_with_zero (v # vs) =
     (case to_number v of
        None \<Rightarrow> None
      | Some n \<Rightarrow> map_option (max_number n) (max_with_zero vs))"

definition loadUsers_try :: "(nat \<Rightarrow> string) \<Rightarrow> state \<Rightarrow> (exn + state) option" where
  "loadUsers_try clock s =
     (if storage s = Absent then Some (Inr (loadSampleData clock s))
      else case JSON_parse (storage s) of
             Inl e \<Rightarrow> Some (Inl e)
           | Inr us \<Rightarrow>
               map_option (\<lambda>m. Inr (s\<lparr>users := us, nextId := succ m\<rparr>))
                 (max_with_zero (map (\<lambda>u. get u ''id'') us)))"

definition loadUsers ::
  "(nat \<Rightarrow> string) \<Rightarrow> state \<Rightarrow> (jsobj list outcome \<times> state) option" where
  "loadUsers clock s =
     map_option
       (\<lambda>r. case r of
              Inr s1 \<Rightarrow> (Success (users s1), notify ''usersLoaded'' (PUsers (users s1)) s1)
            | Inl error \<Rightarrow>
                (Failure (message_of error),
                 notify ''error'' (PError (message_of error) ''load'') s))
       (loadUsers_try clock s)"

definition saveUsers :: "state \<Rightarrow> unit outcome \<times> state" where
  "saveUsers s =
     (let s1 = s\<lparr>storage := JSON_stringify (users s)\<rparr>
      in (Success (), notify ''usersSaved'' (PUsers (users s1)) s1))"

text \<open>A new service instance in the environment that \<open>s\<close> has reached.\<close>

definition new_service :: "state \<Rightarrow> state" where
  "new_service s = s\<lparr>users := [], nextId := N 1, observers := []\<rparr>"

subsection \<open>Sequences of operations\<close>

datatype op =
    Create jsobj
  | Update jsval jsobj
  | Delete jsval
  | Import "jsobj list"
  | Save
  | Subscribe nat
  | Unsubscribe nat

fun apply_op :: "(nat \<Rightarrow> string) \<Rightarrow> op \<Rightarrow> state \<Rightarrow> state" where
  "apply_op clock (Create userData) s = snd (createUser clock s userData)"
| "apply_op clock (Update ident userData) s = snd (updateUser clock s ident userData)"
| "apply_op clock (Delete ident) s = snd (deleteUser s ident)"
| "apply_op clock (Import usersData) s = snd (importUsers clock s usersData)"
| "apply_op clock Save s = snd (saveUsers s)"
| "apply_op clock (Subscribe callback) s = subscribe callback s"
| "apply_op clock (Unsubscribe callback) s = unsubscribe callback s"

fun run :: "(nat \<Rightarrow> string) \<Rightarrow> op list \<Rightarrow> state \<Rightarrow> state" where
  "run clock [] s = s"
| "run clock (x # xs) s = run clock xs (apply_op clock x s)"

text \<open>The ids that \<open>createUser\<close> has given out are those of the records announced
  by the \<open>userCreated\<close> events.\<close>

fun created_id :: "notification \<Rightarrow> jsval list" where
  "created_id n =
     (if event n = ''userCreated''
      then (case data n of PUser u \<Rightarrow> [get u ''id''] | _ \<Rightarrow> [])
      else [])"

definition created_ids :: "state \<Rightarrow> jsval list" where
  "created_ids s = concat (map created_id (trace s))"

section \<open>References\<close>

text \<open>
  Arrays and objects are reached through references, and two references may
  name the same object. The heap is the sequence of the cells allocated so far;
  a reference is an index into it. The field \<open>this.users\<close> is a reference to an
  array of references to record objects; the list \<open>users s\<close> above is what
  \<open>held\<close> reads through it.
\<close>

type_synonym ref = nat

datatype cell = Array "ref list" | Object jsobj

type_synonym heap = "cell list"

definition lookup :: "heap \<Rightarrow> ref \<Rightarrow> cell option" where
  "lookup h r = (if r < length h then Some (h ! r) else None)"

definition alloc :: "heap \<Rightarrow> cell \<Rightarrow> ref \<times> heap" where
  "alloc h c = (length h, h @ [c])"

definition elements :: "heap \<Rightarrow> ref \<Rightarrow> ref list" where
  "elements h r = (case lookup h r of Some (Array es) \<Rightarrow> es | _ \<Rightarrow> [])"

definition record_at :: "heap \<Rightarrow> ref \<Rightarrow> jsobj option" where
  "record_at h r = (case lookup h r of Some (Object obj) \<Rightarrow> Some obj | _ \<Rightarrow> None)"

definition held :: "heap \<Rightarrow> ref \<Rightarrow> jsobj option list" where
  "held h usersRef = map (record_at h) (elements h usersRef)"

text \<open>\<open>return [...this.users]\<close>: a new array with the same elements.\<close>

definition getAllUsers :: "heap \<Rightarrow> ref \<Rightarrow> ref \<times> heap" where
  "getAllUsers h usersRef = alloc h (Array (elements h usersRef))"

text \<open>
  What a caller can do to an array it holds: give it other elements (by
  assignment to an index or to \<open>length\<close>, \<open>push\<close>, \<open>pop\<close>, \<open>splice\<close>, \<open>sort\<close>
  and the like), or assign to a property of the object that is its \<open>i\<close>-th
  element.
\<close>

datatype mutation = SetElements "ref list" | SetProperty nat string jsval

fun mutate :: "heap \<Rightarrow> ref \<Rightarrow> mutation \<Rightarrow> heap" where
  "mutate h a (SetElements es) =
     (case lookup h a of Some (Array _) \<Rightarrow> h[a := Array es] | _ \<Rightarrow> h)"
| "mutate h a (SetProperty i k v) =
     (if i < length (elements h a)
      then (case lookup h (elements h a ! i) of
              Some (Object obj) \<Rightarrow> h[elements h a ! i := Object (obj(k \<mapsto> v))]
            | _ \<Rightarrow> h)
      else h)"

section \<open>Scenarios and specification-side notions\<close>

subsection \<open>Validation\<close>

text \<open>A field is blank when it is missing (or otherwise falsy) or a string of
  white space only; it is textual when it is a string or falsy, so that the
  required-field check can treat it.\<close>

definition blank :: "jsval \<Rightarrow> bool" where
  "blank v = (case v of Str s \<Rightarrow> list_all is_ws s | _ \<Rightarrow> \<not> truthy v)"

definition textual :: "jsval \<Rightarrow> bool" where
  "textual v = (case v of Str s \<Rightarrow> True | _ \<Rightarrow> \<not> truthy v)"

text \<open>The error list as the specification describes it: the required-field
  messages in field order, then the three format messages.\<close>

definition expected_errors :: "jsobj \<Rightarrow> string list" where
  "expected_errors userData =
     map (\<lambda>field. field @ '' is required'') (filter (\<lambda>field. blank (get userData field)) required)
     @ (if truthy (get userData ''email'') \<and> \<not> isValidEmail (get userData ''email'')
        then [''Invalid email format''] else [])
     @ (if truthy (get userData ''userType'') \<and> get userData ''userType'' \<notin> set validTypes
        then [''Invalid user type''] else [])
     @ (if truthy (get userData ''status'') \<and> get userData ''status'' \<notin> set validStatuses
        then [''Invalid status''] else [])"

definition numeric_phone :: jsobj where
  "numeric_phone =
     [''firstName'' \<mapsto> Str ''A'', ''lastName'' \<mapsto> Str ''B'', ''email'' \<mapsto> Str ''a@b.com'',
      ''phone'' \<mapsto> Num (N 5551234), ''userType'' \<mapsto> Str ''client'']"

definition blank_fields :: jsobj where
  "blank_fields =
     [''firstName'' \<mapsto> Str ''  '', ''email'' \<mapsto> Str ''nobody'',
      ''userType'' \<mapsto> Str ''guest'', ''status'' \<mapsto> Num (N 3)]"

subsection \<open>The service\<close>

definition clock0 :: "nat \<Rightarrow> string" where
  "clock0 k = ''2024-01-01T00:00:00.000Z''"

definition userA :: jsobj where
  "userA =
     [''firstName'' \<mapsto> Str ''A'', ''lastName'' \<mapsto> Str ''B'', ''email'' \<mapsto> Str ''a@b.com'',
      ''phone'' \<mapsto> Str ''1'', ''userType'' \<mapsto> Str ''client'']"

definition emailOnly :: jsobj where
  "emailOnly = [''email'' \<mapsto> Str ''a@b.com'']"

definition firstNameOnly :: jsobj where
  "firstNameOnly = [''firstName'' \<mapsto> Str ''X'']"

text \<open>A service with one subscriber and one record, made by \<open>createUser\<close>.\<close>

definition one_user :: state where
  "one_user = snd (createUser clock0 (subscribe 0 (constructor Absent)) userA)"

text \<open>No record of the store has the id that \<open>ident\<close> denotes.\<close>

definition absent_in :: "state \<Rightarrow> jsval \<Rightarrow> bool" where
  "absent_in s ident = list_all (\<lambda>user. \<not> id_is (parseInt ident) user) (users s)"

text \<open>What validation says about an input, as a function of the input alone:
  the message of the failure, or \<open>None\<close> when the input passes.\<close>

definition patch_verdict :: "jsobj \<Rightarrow> message option" where
  "patch_verdict patch =
     (case validateUser patch of
        Inl e \<Rightarrow> Some (message_of e)
      | Inr v \<Rightarrow> if isValid v then None else Some (Msg (join_with '', '' (errors v))))"

definition duplicate_message :: message where
  "duplicate_message = Msg ''A user with this email already exists''"

fun is_Success :: "'a outcome \<Rightarrow> bool" where
  "is_Success (Success _) = True"
| "is_Success (Failure _) = False"

text \<open>
  Behaviours: every subscriber returns from the \<open>error\<close> event (\<open>calm\<close>), or
  from every event (\<open>quiet\<close>); a subscriber that throws when a record is
  created, and one that throws on the \<open>error\<close> event.
\<close>

definition calm :: "behaviour \<Rightarrow> state \<Rightarrow> bool" where
  "calm b s = list_all (\<lambda>callback. \<forall>h d. b callback h ''error'' d = None) (observers s)"

definition quiet :: "behaviour \<Rightarrow> state \<Rightarrow> bool" where
  "quiet b s = list_all (\<lambda>callback. \<forall>h ev d. b callback h ev d = None) (observers s)"

definition touchy :: behaviour where
  "touchy callback h ev d = (if ev = ''userCreated'' then Some (Error ''boom'') else None)"



definition missingEmail :: jsobj where
  "missingEmail =
     [''firstName'' \<mapsto> Str ''C'', ''lastName'' \<mapsto> Str ''D'',
      ''phone'' \<mapsto> Str ''2'', ''userType'' \<mapsto> Str ''admin'']"

definition userC :: jsobj where
  "userC =
     [''firstName'' \<mapsto> Str ''E'', ''lastName'' \<mapsto> Str ''F'', ''email'' \<mapsto> Str ''e@f.org'',
      ''phone'' \<mapsto> Str ''3'', ''userType'' \<mapsto> Str ''provider'', ''status'' \<mapsto> Str ''inactive'']"

text \<open>
  The import as the specification describes it: \<open>createUser\<close> is called once
  per entry, in list order, each call on the state the one before has left;
  \<open>create_all\<close> pairs every entry with the outcome of its call. The created
  records are those of the successful calls, the rejected entries those of the
  failed ones, each with its message.
\<close>

fun create_all ::
  "(nat \<Rightarrow> string) \<Rightarrow> jsobj list \<Rightarrow> state \<Rightarrow> (jsobj \<times> jsobj outcome) list \<times> state" where
  "create_all clock [] s = ([], s)"
| "create_all clock (userData # rest) s =
     (let (r, s1) = createUser clock s userData;
          (rs, s2) = create_all clock rest s1
      in ((userData, r) # rs, s2))"

fun created :: "(jsobj \<times> jsobj outcome) list \<Rightarrow> jsobj list" where
  "created [] = []"
| "created ((userData, Success newUser) # rs) = newUser # created rs"
| "created ((userData, Failure error) # rs) = created rs"

fun rejected :: "(jsobj \<times> jsobj outcome) list \<Rightarrow> (jsobj \<times> message) list" where
  "rejected [] = []"
| "rejected ((userData, Success newUser) # rs) = rejected rs"
| "rejected ((userData, Failure error) # rs) = (userData, error) # rejected rs"

definition bulk_events :: "notification list \<Rightarrow> notification list" where
  "bulk_events ns = filter (\<lambda>n. event n = ''bulkImport'') ns"

subsection \<open>Ids given as strings\<close>

text \<open>The leading decimal digits of a string, and what it is for them to
  denote the integer \<open>n\<close>.\<close>

definition leading_decimal :: "string \<Rightarrow> string" where
  "leading_decimal str = takeWhile (is_digit 10) str"

definition denotes :: "string \<Rightarrow> int \<Rightarrow> bool" where
  "denotes str n = (leading_decimal str \<noteq> [] \<and> int (digits_value 10 (leading_decimal str)) = n)"

definition one_x :: string where
  "one_x = ''1x''"

definition hex_prefixed :: "string \<Rightarrow> bool" where
  "hex_prefixed str = (starts_with ''0x'' str \<or> starts_with ''0X'' str)"

definition has_id :: "number \<Rightarrow> jsobj \<Rightarrow> bool" where
  "has_id k user = (get user ''id'' = Num k)"

text \<open>What \<open>updateUser\<close> and \<open>deleteUser\<close> do when they address the record with
  the id \<open>k\<close>: the first record of the store with this id, if there is one.\<close>

definition deleteUser_of :: "state \<Rightarrow> number \<Rightarrow> jsobj outcome \<times> state" where
  "deleteUser_of s k =
     (case findIndex (has_id k) (users s) of
        None \<Rightarrow>
          (Failure (Msg ''User not found''),
           notify ''error'' (PError (Msg ''User not found'') ''delete'') s)
      | Some i \<Rightarrow>
          (Success (users s ! i),
           s\<lparr>users := splice1 i (users s),
             trace := trace s @
               [\<lparr>event = ''userDeleted'', data = PUser (users s ! i), recipients = observers s\<rparr>,
                \<lparr>event = ''usersChanged'', data = PUsers (splice1 i (users s)),
                 recipients = observers s\<rparr>]\<rparr>))"

definition merged :: "(nat \<Rightarrow> string) \<Rightarrow> state \<Rightarrow> nat \<Rightarrow> jsobj \<Rightarrow> jsobj" where
  "merged clock s i patch = (users s ! i ++ patch)(''lastModified'' \<mapsto> Str (clock (ticks s)))"

definition updateUser_of ::
  "(nat \<Rightarrow> string) \<Rightarrow> state \<Rightarrow> number \<Rightarrow> jsobj \<Rightarrow> jsobj outcome \<times> state" where
  "updateUser_of clock s k patch =
     (case findIndex (has_id k) (users s) of
        None \<Rightarrow>
          (Failure (Msg ''User not found''),
           notify ''error'' (PError (Msg ''User not found'') ''update'') s)
      | Some i \<Rightarrow>
          (case patch_verdict patch of
             Some m \<Rightarrow> (Failure m, notify ''error'' (PError m ''update'') s)
           | None \<Rightarrow>
               if (case findUserByEmail s (get patch ''email'') of
                     None \<Rightarrow> False
                   | Some existingUser \<Rightarrow> \<not> has_id k existingUser)
               then (Failure duplicate_message,
                     notify ''error'' (PError duplicate_message ''update'') s)
               else
                 (Success (merged clock s i patch),
                  s\<lparr>ticks := Suc (ticks s),
                    users := (users s)[i := merged clock s i patch],
                    trace := trace s @
                      [\<lparr>event = ''userUpdated'',
                        data = PUpdated (users s ! i) (merged clock s i patch),
                        recipients = observers s\<rparr>,
                       \<lparr>event = ''usersChanged'',
                        data = PUsers ((users s)[i := merged clock s i patch]),
                        recipients = observers s\<rparr>]\<rparr>)))"

text \<open>A store whose record has the id 0, which the input carried.\<close>

definition zero_store :: state where
  "zero_store = snd (createUser clock0 (constructor Absent) (userA(''id'' \<mapsto> Num (N 0))))"

definition hex_sixteen :: string where
  "hex_sixteen = ''0x10''"

subsection \<open>The id counter\<close>

text \<open>
  An input carries an id when it has a property \<open>id\<close> of its own. The
  invariant of the counter: the ids given out so far form a strictly
  increasing sequence of integers below the counter, and every record of the
  store has an integer id below the counter. A later state advances an earlier
  one when the counter has not gone back, the ids given out before are still
  the beginning of the sequence, and those given out since are at least the
  earlier counter.
\<close>

definition carries_id :: "jsobj \<Rightarrow> bool" where
  "carries_id userData = (userData ''id'' \<noteq> None)"

fun id_free :: "op \<Rightarrow> bool" where
  "id_free (Create userData) = (\<not> carries_id userData)"
| "id_free (Update ident userData) = (\<not> carries_id userData)"
| "id_free (Import usersData) = list_all (\<lambda>userData. \<not> carries_id userData) usersData"
| "id_free _ = True"

fun below :: "int \<Rightarrow> jsval \<Rightarrow> bool" where
  "below b (Num k) = (int_of k < b)"
| "below b _ = False"

fun at_least :: "int \<Rightarrow> jsval \<Rightarrow> bool" where
  "at_least b (Num k) = (b \<le> int_of k)"
| "at_least b _ = False"

fun id_less :: "jsval \<Rightarrow> jsval \<Rightarrow> bool" where
  "id_less (Num a) (Num b) = (int_of a < int_of b)"
| "id_less _ _ = False"

definition counter_inv :: "state \<Rightarrow> bool" where
  "counter_inv s =
     (sorted_wrt id_less (created_ids s) \<and>
      list_all (below (int_of (nextId s))) (created_ids s) \<and>
      list_all (\<lambda>user. below (int_of (nextId s)) (get user ''id'')) (users s))"

definition newly_created :: "state \<Rightarrow> state \<Rightarrow> jsval list" where
  "newly_created s s' = drop (length (created_ids s)) (created_ids s')"

definition advances :: "state \<Rightarrow> state \<Rightarrow> bool" where
  "advances s s' =
     (int_of (nextId s) \<le> int_of (nextId s') \<and>
      take (length (created_ids s)) (created_ids s') = created_ids s \<and>
      list_all (at_least (int_of (nextId s))) (newly_created s s'))"

text \<open>The number of calls of \<open>createUser\<close> that a sequence of operations makes.\<close>

fun creations_of :: "op \<Rightarrow> nat" where
  "creations_of (Create userData) = 1"
| "creations_of (Import usersData) = length usersData"
| "creations_of _ = 0"

definition creations :: "op list \<Rightarrow> nat" where
  "creations ops = sum_list (map creations_of ops)"

definition userD :: jsobj where
  "userD = [''firstName'' \<mapsto> Str ''G'', ''lastName'' \<mapsto> Str ''H'', ''email'' \<mapsto> Str ''g@h.net'',
      ''phone'' \<mapsto> Str ''4'', ''userType'' \<mapsto> Str ''client'']"

definition two_created_one_deleted :: "op list" where
  "two_created_one_deleted = [Create userA, Create userC, Delete (Num (N 2))]"

definition reuse_scenario :: "state option" where
  "reuse_scenario =
     map_option (\<lambda>r. snd (createUser clock0 (snd r) userD))
       (loadUsers clock0
          (run clock0 (two_created_one_deleted @ [Save]) (subscribe 0 (constructor Absent))))"

subsection \<open>Persistence and copies\<close>

text \<open>An object none of whose properties holds \<open>undefined\<close>; the values of one
  field through a list of records.\<close>

definition no_undefined :: "jsobj \<Rightarrow> bool" where
  "no_undefined obj = (Undefined \<notin> ran obj)"

definition field_values :: "string \<Rightarrow> jsobj list \<Rightarrow> jsval list" where
  "field_values k us = map (\<lambda>user. get user k) us"

text \<open>A heap with the store's array at reference 0 and one record at reference 1.\<close>

definition heap0 :: heap where
  "heap0 = [Array [1], Object userA]"

definition emails_held :: "heap \<Rightarrow> ref \<Rightarrow> jsval option list" where
  "emails_held h usersRef = map (map_option (\<lambda>user. get user ''email'')) (held h usersRef)"

section \<open>Properties of the Numbers\<close>

lemma int_of_N [simp]:
  "- 9007199254740992 \<le> n \<Longrightarrow> n \<le> 9007199254740992 \<Longrightarrow> int_of (N n) = n"
  by (simp add: N_inverse)

lemma N_int_of [simp]: "N (int_of k) = k"
  by (rule int_of_inverse)

lemma int_of_range: "- limit \<le> int_of k \<and> int_of k \<le> limit"
  using int_of[of k] by (simp add: limit_def)

lemma N_eq_iff [simp]:
  "- 9007199254740992 \<le> a \<Longrightarrow> a \<le> 9007199254740992 \<Longrightarrow>
   - 9007199254740992 \<le> b \<Longrightarrow> b \<le> 9007199254740992 \<Longrightarrow> (N a = N b) = (a = b)"
  by (simp add: N_inject)

lemma int_of_eq_iff: "(int_of a = int_of b) = (a = b)"
  by (rule int_of_inject)

lemma int_of_succ: "int_of (succ n) = min (int_of n + 1) limit"
  using int_of_range[of n] by (simp add: succ_def limit_def)

lemma succ_N [simp]:
  "- 9007199254740992 \<le> n \<Longrightarrow> n < 9007199254740992 \<Longrightarrow> succ (N n) = N (n + 1)"
  by (simp add: succ_def limit_def)

lemma nearest_in_range [simp]:
  "- 9007199254740992 \<le> x \<Longrightarrow> x \<le> 9007199254740992 \<Longrightarrow> nearest x = Some (N x)"
  by (simp add: nearest_def limit_def)

lemma nearest_int_of [simp]: "nearest (int_of k) = Some k"
  using int_of_range[of k] by (simp add: nearest_def)

lemma id_is_int_of [simp]: "id_is (Some (int_of k)) user = (get user ''id'' = Num k)"
  by (simp add: id_is_def)

section \<open>Properties of parseInt\<close>

lemma small_cases: "d < 10 \<Longrightarrow> d \<in> {0, 1, 2, 3, 4, 5, 6, 7, 8, 9 :: nat}"
  by auto

lemma digit_val_digit_char: "d < 10 \<Longrightarrow> digit_val (digit_char d) = Some d"
  using small_cases[of d] by (auto simp: digit_char_def digit_val_def)

lemma digit_char_not_ws: "d < 10 \<Longrightarrow> \<not> is_ws (digit_char d)"
  using small_cases[of d] by (auto simp: digit_char_def is_ws_def)

lemma digit_char_not_sign:
  "d < 10 \<Longrightarrow> digit_char d \<noteq> CHR ''-'' \<and> digit_char d \<noteq> CHR ''+''"
  using small_cases[of d] by (auto simp: digit_char_def)

lemma digit_char_zero: "d < 10 \<Longrightarrow> digit_char d = CHR ''0'' \<Longrightarrow> d = 0"
  using small_cases[of d] by (auto simp: digit_char_def)

lemma is_digit_digit_char: "d < 10 \<Longrightarrow> is_digit 10 (digit_char d)"
  by (simp add: is_digit_def digit_val_digit_char)

lemma digits_nonempty: "digits m \<noteq> []"
  by (subst digits.simps) simp

lemma digits_all_digit: "list_all (is_digit 10) (digits m)"
proof (induction m rule: digits.induct)
  case (1 n)
  show ?case
    by (subst digits.simps) (use 1 in \<open>auto simp: is_digit_digit_char\<close>)
qed

lemma digits_value_snoc:
  "digits_value R (z @ [c]) = digits_value R z * R + (case digit_val c of None \<Rightarrow> 0 | Some d \<Rightarrow> d)"
  by (simp add: digits_value_def)

lemma digits_value_digits: "digits_value 10 (digits m) = m"
proof (induction m rule: digits.induct)
  case (1 n)
  show ?case
  proof (cases "n < 10")
    case True
    then show ?thesis
      by (subst digits.simps) (simp add: digits_value_def digit_val_digit_char)
  next
    case False
    with 1 have "digits_value 10 (digits (n div 10)) = n div 10" by simp
    with False show ?thesis
      by (subst digits.simps) (simp add: digits_value_snoc digit_val_digit_char)
  qed
qed

lemma hd_digits: "\<exists>d<10. hd (digits m) = digit_char d \<and> (d = 0 \<longrightarrow> m = 0)"
proof (induction m rule: digits.induct)
  case (1 n)
  show ?case
  proof (cases "n < 10")
    case True
    then show ?thesis by (subst digits.simps) auto
  next
    case False
    with 1 obtain d where d: "d < 10" "hd (digits (n div 10)) = digit_char d"
      "d = 0 \<longrightarrow> n div 10 = 0" by auto
    from False have "n div 10 \<noteq> 0" by simp
    with d False show ?thesis
      by (subst digits.simps) (auto simp: digits_nonempty)
  qed
qed

lemma digits_zero: "digits 0 = ''0''"
  by (simp add: digits.simps digit_char_def)

lemma takeWhile_all: "list_all P xs \<Longrightarrow> takeWhile P xs = xs"
  by (induction xs) auto

lemma digits_Cons: "\<exists>d cs. d < 10 \<and> digits m = digit_char d # cs \<and> (d = 0 \<longrightarrow> m = 0)"
proof -
  obtain d where d: "d < 10" "hd (digits m) = digit_char d" "d = 0 \<longrightarrow> m = 0"
    using hd_digits by blast
  obtain c cs where cs: "digits m = c # cs" using digits_nonempty by (cases "digits m") auto
  with d(2) have "digits m = digit_char d # cs" by simp
  with d show ?thesis by blast
qed

lemma digits_no_ws: "dropWhile is_ws (digits m) = digits m"
proof -
  obtain d cs where d: "d < 10" "digits m = digit_char d # cs"
    using digits_Cons by blast
  have "dropWhile is_ws (digit_char d # cs) = digit_char d # cs"
    using digit_char_not_ws[OF d(1)] by simp
  then show ?thesis unfolding d(2) .
qed

lemma digits_no_sign: "\<not> starts_with ''-'' (digits m)" "\<not> starts_with ''+'' (digits m)"
proof -
  obtain d cs where d: "d < 10" "digits m = digit_char d # cs"
    using digits_Cons by blast
  have "\<not> starts_with ''-'' (digit_char d # cs) \<and> \<not> starts_with ''+'' (digit_char d # cs)"
    using digit_char_not_sign[OF d(1)] by (simp add: starts_with_def)
  then show "\<not> starts_with ''-'' (digits m)" "\<not> starts_with ''+'' (digits m)"
    unfolding d(2) by blast+
qed

lemma digits_no_hex: "\<not> starts_with [CHR ''0'', x] (digits m)"
proof -
  obtain d cs where d: "d < 10" "digits m = digit_char d # cs" "d = 0 \<longrightarrow> m = 0"
    using digits_Cons by blast
  show ?thesis
  proof (cases "d = 0")
    case True
    with d have "m = 0" by simp
    then show ?thesis by (simp add: digits_zero starts_with_def)
  next
    case False
    then have "digit_char d \<noteq> CHR ''0''" using d(1) digit_char_zero by blast
    then have "\<not> starts_with [CHR ''0'', x] (digit_char d # cs)" by (simp add: starts_with_def)
    then show ?thesis unfolding d(2) .
  qed
qed

lemmas digits_no_prefix = digits_no_ws digits_no_sign digits_no_hex

lemma parseInt_string_digits: "parseInt_string (digits m) = Some (int m)"
  unfolding parseInt_string_def Let_def digits_no_ws
  apply (simp only: digits_no_prefix if_False simp_thms)
  apply (simp only: takeWhile_all[OF digits_all_digit] digits_value_digits)
  apply (simp add: digits_nonempty)
  done

lemma parseInt_string_minus_digits:
  "parseInt_string (CHR ''-'' # digits m) = Some (- int m)"
proof -
  have a: "dropWhile is_ws (CHR ''-'' # digits m) = CHR ''-'' # digits m"
    by (simp add: is_ws_def)
  have b: "starts_with ''-'' (CHR ''-'' # digits m)" by (simp add: starts_with_def)
  have c: "tl (CHR ''-'' # digits m) = digits m" by simp
  show ?thesis
    unfolding parseInt_string_def Let_def a
    apply (simp only: b c digits_no_prefix if_True if_False simp_thms)
    apply (simp only: takeWhile_all[OF digits_all_digit] digits_value_digits)
    apply (simp add: digits_nonempty)
    done
qed

lemma parseInt_Num: "parseInt (Num n) = Some (int_of n)"
  by (simp add: parseInt_def parseInt_string_digits parseInt_string_minus_digits)

lemma is_digit_10_iff: "is_digit 10 c \<longleftrightarrow> 48 \<le> (of_char c :: nat) \<and> (of_char c :: nat) \<le> 57"
  by (auto simp: is_digit_def digit_val_def Let_def)

lemma decimal_not_ws: "is_digit 10 c \<Longrightarrow> \<not> is_ws c"
  by (auto simp: is_digit_10_iff is_ws_def)

lemma decimal_not_sign: "is_digit 10 c \<Longrightarrow> c \<noteq> CHR ''-'' \<and> c \<noteq> CHR ''+''"
  by (auto simp: is_digit_10_iff)

lemma parseInt_leading_decimal:
  assumes "denotes str n" and "\<not> hex_prefixed str"
  shows "parseInt (Str str) = Some n"
proof -
  from assms(1) obtain c cs where str: "str = c # cs" and c: "is_digit 10 c"
    by (cases str) (auto simp: denotes_def leading_decimal_def split: if_splits)
  have ws: "dropWhile is_ws str = str"
    using decimal_not_ws[OF c] by (simp add: str)
  have sign: "\<not> starts_with ''-'' str" "\<not> starts_with ''+'' str"
    using decimal_not_sign[OF c] by (simp_all add: str starts_with_def)
  from assms(2) have hex: "\<not> starts_with ''0x'' str" "\<not> starts_with ''0X'' str"
    by (simp_all add: hex_prefixed_def)
  from assms(1) have z: "takeWhile (is_digit 10) str \<noteq> []"
    "int (digits_value 10 (takeWhile (is_digit 10) str)) = n"
    by (simp_all add: denotes_def leading_decimal_def)
  have "parseInt_string str = Some n"
    unfolding parseInt_string_def Let_def ws
    apply (simp only: sign hex if_False simp_thms)
    apply (simp add: z)
    done
  then show ?thesis by (simp add: parseInt_def)
qed

lemma id_is_parseInt_Num: "id_is (parseInt (Num k)) = has_id k"
  by (rule ext) (simp add: parseInt_Num has_id_def)

lemma id_is_parseInt_Str:
  "denotes str (int_of k) \<Longrightarrow> \<not> hex_prefixed str \<Longrightarrow> id_is (parseInt (Str str)) = has_id k"
  by (rule ext) (simp add: parseInt_leading_decimal has_id_def)

section \<open>Properties of validation\<close>

lemma trim_empty_iff: "trim s = [] \<longleftrightarrow> list_all is_ws s"
proof
  assume "trim s = []"
  then have a: "\<forall>c\<in>set (dropWhile is_ws s). is_ws c" by (simp add: trim_def)
  have "dropWhile is_ws s = []"
  proof (cases "dropWhile is_ws s")
    case Nil then show ?thesis .
  next
    case (Cons c cs)
    then have "\<not> is_ws c" using hd_dropWhile[of is_ws s] by auto
    with a Cons show ?thesis by simp
  qed
  then show "list_all is_ws s" by (simp add: list_all_iff)
next
  assume "list_all is_ws s"
  then have d: "dropWhile is_ws s = []" by (simp add: list_all_iff)
  show "trim s = []" unfolding trim_def d by simp
qed

lemma check_required_textual:
  "list_all (\<lambda>f. textual (get d f)) fs \<Longrightarrow>
   check_required d fs errs =
     Inr (errs @ map (\<lambda>field. field @ '' is required'') (filter (\<lambda>field. blank (get d field)) fs))"
proof (induction fs arbitrary: errs)
  case Nil
  then show ?case by simp
next
  case (Cons f fs)
  then show ?case
    by (cases "get d f") (auto simp: textual_def blank_def trim_empty_iff)
qed

lemma check_required_not_textual:
  "\<not> list_all (\<lambda>f. textual (get d f)) fs \<Longrightarrow> check_required d fs errs = Inl TypeError"
proof (induction fs arbitrary: errs)
  case Nil
  then show ?case by simp
next
  case (Cons f fs)
  then show ?case
    by (cases "get d f") (auto simp: textual_def)
qed

text \<open>The regular expression, read as a decomposition of the string: a local
  part, an \<open>@\<close>, and a domain with an inner dot, none of them empty and none
  with white space or a further \<open>@\<close>.\<close>

lemma email_char_dot: "email_char (CHR ''.'')"
  by (simp add: email_char_def is_ws_def)

lemma emailRegex_test_iff:
  "emailRegex_test s \<longleftrightarrow>
     (\<exists>a b c. s = a @ ''@'' @ b @ ''.'' @ c \<and> a \<noteq> [] \<and> b \<noteq> [] \<and> c \<noteq> [] \<and>
        list_all email_char a \<and> list_all email_char b \<and> list_all email_char c)"
proof
  assume t: "emailRegex_test s"
  define a where "a = takeWhile email_char s"
  define rest where "rest = dropWhile email_char s"
  from t have a: "a \<noteq> []" and r: "rest \<noteq> []" "hd rest = CHR ''@''"
    and dom: "list_all email_char (tl rest)" and dot: "CHR ''.'' \<in> set (butlast (tl (tl rest)))"
    by (simp_all add: emailRegex_test_def a_def rest_def Let_def)
  have s: "s = a @ rest" by (simp add: a_def rest_def)
  from r obtain d where rest: "rest = CHR ''@'' # d" by (cases rest) auto
  from dom dot have d: "list_all email_char d" "CHR ''.'' \<in> set (butlast (tl d))"
    unfolding rest by simp_all
  from d(2) obtain x u where xu: "d = x # u" by (cases d) auto
  from d(2) obtain p q where pq: "butlast u = p @ CHR ''.'' # q"
    unfolding xu by (auto dest: split_list)
  then have "u \<noteq> []" by auto
  then obtain l where ul: "u = butlast u @ [l]" by (metis append_butlast_last_id)
  have d': "d = (x # p) @ CHR ''.'' # (q @ [l])"
    unfolding xu by (subst ul) (simp add: pq)
  have "s = a @ ''@'' @ (x # p) @ ''.'' @ (q @ [l])"
    unfolding s rest d' by simp
  moreover have "list_all email_char (x # p) \<and> list_all email_char (q @ [l])"
    using d(1) unfolding d' by simp
  moreover have "list_all email_char a" by (auto simp: a_def list_all_iff dest: set_takeWhileD)
  ultimately show "\<exists>a b c. s = a @ ''@'' @ b @ ''.'' @ c \<and> a \<noteq> [] \<and> b \<noteq> [] \<and> c \<noteq> [] \<and>
        list_all email_char a \<and> list_all email_char b \<and> list_all email_char c"
    using a by blast
next
  assume "\<exists>a b c. s = a @ ''@'' @ b @ ''.'' @ c \<and> a \<noteq> [] \<and> b \<noteq> [] \<and> c \<noteq> [] \<and>
        list_all email_char a \<and> list_all email_char b \<and> list_all email_char c"
  then obtain a b c where s: "s = a @ ''@'' @ b @ ''.'' @ c" and ne: "a \<noteq> []" "b \<noteq> []" "c \<noteq> []"
    and ok: "list_all email_char a" "list_all email_char b" "list_all email_char c" by blast
  have at: "\<not> email_char (CHR ''@'')" by (simp add: email_char_def)
  have tw: "takeWhile email_char s = a"
    using ok(1) at by (simp add: s takeWhile_append list_all_iff)
  have dw: "dropWhile email_char s = CHR ''@'' # b @ ''.'' @ c"
    using ok(1) at by (simp add: s dropWhile_append list_all_iff)
  obtain b0 bs where b: "b = b0 # bs" using ne(2) by (cases b) auto
  have "butlast (bs @ CHR ''.'' # c) = bs @ CHR ''.'' # butlast c"
    using ne(3) by (simp add: butlast_append)
  then have dot: "CHR ''.'' \<in> set (butlast (tl (b @ ''.'' @ c)))" by (simp add: b)
  show "emailRegex_test s"
    using ne(1) ok dot email_char_dot
    by (simp add: emailRegex_test_def tw dw Let_def)
qed

lemma validateUser_eq:
  "validateUser userData =
     (if list_all (\<lambda>field. textual (get userData field)) required
      then Inr \<lparr>isValid = (expected_errors userData = []), errors = expected_errors userData\<rparr>
      else Inl TypeError)"
  by (simp add: validateUser_def check_required_textual check_required_not_textual
      expected_errors_def Let_def)

text \<open>
  C8, as the code has it. \<open>validateUser\<close> depends on the candidate alone and
  changes nothing. When each of the five required fields is a string or falsy
  (missing, \<open>null\<close>, zero, \<open>false\<close>), it returns the accumulated list: one
  \<open><field> is required\<close> per blank field in the fixed order, then
  \<open>Invalid email format\<close>, \<open>Invalid user type\<close> and \<open>Invalid status\<close> for each
  of these checks that applies and fails, and \<open>isValid\<close> tells whether the list
  is empty. When a required field holds any other value (a nonzero number,
  \<open>true\<close>), the call of \<open>.trim()\<close> throws a \<open>TypeError\<close> and nothing is returned.
\<close>

theorem validateUser_accumulates:
  "validateUser userData =
     (if list_all (\<lambda>field. textual (get userData field)) required
      then Inr \<lparr>isValid = (expected_errors userData = []), errors = expected_errors userData\<rparr>
      else Inl TypeError)"
  by (rule validateUser_eq)

theorem validateUser_accumulates_witness:
  "list_all (\<lambda>field. textual (get blank_fields field)) required \<and>
   validateUser blank_fields =
     Inr \<lparr>isValid = False,
          errors = [''firstName is required'', ''lastName is required'', ''phone is required'',
                    ''Invalid email format'', ''Invalid user type'', ''Invalid status'']\<rparr>"
proof -
  have t: "list_all (\<lambda>field. textual (get blank_fields field)) required"
    by (simp add: required_def blank_fields_def get_def textual_def)
  have e: "expected_errors blank_fields =
      [''firstName is required'', ''lastName is required'', ''phone is required'',
       ''Invalid email format'', ''Invalid user type'', ''Invalid status'']"
    by (simp add: expected_errors_def required_def blank_fields_def get_def blank_def is_ws_def
          isValidEmail_def emailRegex_test_def email_char_def validTypes_def validStatuses_def)
  from validateUser_accumulates[of blank_fields] t e show ?thesis by simp
qed

text \<open>The claim C8 as stated, for every candidate, fails where the phone number
  is given as a number: the call throws.\<close>

theorem validateUser_throws_counterexample:
  "validateUser numeric_phone = Inl TypeError"
  by (simp add: validateUser_def numeric_phone_def required_def get_def trim_def is_ws_def)

section \<open>Properties of the service operations\<close>

lemmas eval_simps = validateUser_def required_def get_def trim_def is_ws_def isValidEmail_def
  emailRegex_test_def email_char_def validTypes_def validStatuses_def createUser_def
  createUser_try_def findUserByEmail_def now_def notify_def constructor_def subscribe_def
  clock0_def Let_def

lemmas parseInt_simps = parseInt_def parseInt_string_def digits.simps digit_char_def is_ws_def
  starts_with_def is_digit_def digit_val_def digits_value_def Let_def

lemma validate_userA: "validateUser userA = Inr \<lparr>isValid = True, errors = []\<rparr>"
  by (simp add: userA_def eval_simps)

lemma one_user_users:
  "users one_user =
     [userA(''id'' \<mapsto> Num (N 1), ''createdAt'' \<mapsto> Str (clock0 0),
            ''lastActive'' \<mapsto> Str (clock0 1), ''status'' \<mapsto> Str ''active'')]"
  unfolding one_user_def createUser_def createUser_try_def validate_userA
  by (auto simp: findUserByEmail_def now_def notify_def constructor_def subscribe_def Let_def
        userA_def get_def map_add_def intro!: ext)

lemma findIndex_None_iff: "findIndex P xs = None \<longleftrightarrow> list_all (\<lambda>x. \<not> P x) xs"
  by (induction xs) auto

lemma findIndex_Some_ex: "list_ex P xs \<Longrightarrow> \<exists>i. findIndex P xs = Some i"
  by (induction xs) auto

lemma parseInt_1: "parseInt (Num (N 1)) = Some 1"
  by (simp add: parseInt_Num)

lemma parseInt_2: "parseInt (Num (N 2)) = Some 2"
  by (simp add: parseInt_Num)

text \<open>
  C2, as the code has it. When no record has the id, \<open>updateUser\<close> fails with
  \<open>User not found\<close>; the records, the counter and the storage stay as they
  were, and no \<open>userUpdated\<close> or \<open>usersChanged\<close> event is emitted. The failure
  itself is announced: exactly one \<open>error\<close> event, carrying the message and the
  type \<open>update\<close>, goes to every subscriber.
\<close>

theorem updateUser_absent:
  "absent_in s ident \<Longrightarrow>
   updateUser clock s ident userData =
     (Failure (Msg ''User not found''),
      s\<lparr>trace := trace s @
           [\<lparr>event = ''error'', data = PError (Msg ''User not found'') ''update'',
             recipients = observers s\<rparr>]\<rparr>)"
proof -
  assume "absent_in s ident"
  then have "findIndex (id_is (parseInt ident)) (users s) = None"
    by (simp add: absent_in_def findIndex_None_iff)
  then show ?thesis
    by (simp add: updateUser_def updateUser_try_def notify_def)
qed

theorem updateUser_absent_witness:
  "absent_in one_user (Num (N 2)) \<and>
   updateUser clock0 one_user (Num (N 2)) userA =
     (Failure (Msg ''User not found''),
      one_user\<lparr>trace := trace one_user @
           [\<lparr>event = ''error'', data = PError (Msg ''User not found'') ''update'',
             recipients = observers one_user\<rparr>]\<rparr>)"
proof -
  have a: "absent_in one_user (Num (N 2))"
    by (simp add: absent_in_def one_user_users id_is_def get_def parseInt_2)
  from a updateUser_absent[OF a] show ?thesis by simp
qed

text \<open>The claim C2 as stated, that no event is emitted, fails: on a service with
  the subscriber 0 and no record, \<open>updateUser(1, {})\<close> delivers an \<open>error\<close> event
  to the subscriber.\<close>

theorem updateUser_absent_emits_counterexample:
  "trace (snd (updateUser clock0 (subscribe 0 (constructor Absent)) (Num (N 1)) Map.empty)) =
     [\<lparr>event = ''error'', data = PError (Msg ''User not found'') ''update'', recipients = [0]\<rparr>]"
  by (simp add: updateUser_def updateUser_try_def notify_def constructor_def subscribe_def)

text \<open>
  C3, as the code has it. When a record of the store has the email of the
  input, \<open>createUser\<close> fails and the store holds the same records afterwards.
  Validation comes first: the failure is the duplicate-email error
  \<open>A user with this email already exists\<close> when the input passes validation,
  and the validation failure otherwise.
\<close>

theorem createUser_duplicate:
  assumes "list_ex (\<lambda>user. get user ''email'' = get userData ''email'') (users s)"
  shows "createUser clock s userData =
           (Failure (case patch_verdict userData of
                       Some m \<Rightarrow> m
                     | None \<Rightarrow> Msg ''A user with this email already exists''),
            notify ''error''
              (PError (case patch_verdict userData of
                         Some m \<Rightarrow> m
                       | None \<Rightarrow> Msg ''A user with this email already exists'') ''create'') s)
         \<and> users (snd (createUser clock s userData)) = users s"
proof -
  from assms have "findUserByEmail s (get userData ''email'') \<noteq> None"
    by (auto simp: findUserByEmail_def find_None_iff list_ex_iff)
  then show ?thesis
    by (auto simp: createUser_def createUser_try_def patch_verdict_def notify_def
        split: sum.splits)
qed

theorem createUser_duplicate_witness:
  "list_ex (\<lambda>user. get user ''email'' = get userA ''email'') (users one_user) \<and>
   createUser clock0 one_user userA =
     (Failure (Msg ''A user with this email already exists''),
      notify ''error'' (PError (Msg ''A user with this email already exists'') ''create'') one_user)
   \<and> users (snd (createUser clock0 one_user userA)) = users one_user"
proof -
  have a: "list_ex (\<lambda>user. get user ''email'' = get userA ''email'') (users one_user)"
    by (simp add: one_user_users userA_def get_def)
  have v: "patch_verdict userA = None"
    by (simp add: patch_verdict_def validate_userA)
  from a createUser_duplicate[OF a, of clock0] v show ?thesis by (simp add: notify_def)
qed

text \<open>The claim C3 as stated, a duplicate-email error whatever the other fields
  are, fails: with \<open>a@b.com\<close> in the store, an input that has this email and
  nothing else is refused by validation, with another message.\<close>

theorem createUser_duplicate_invalid_counterexample:
  "list_ex (\<lambda>user. get user ''email'' = Str ''a@b.com'') (users one_user) \<and>
   get emailOnly ''email'' = Str ''a@b.com'' \<and>
   fst (createUser clock0 one_user emailOnly) =
     Failure (Msg ''firstName is required, lastName is required, phone is required, userType is required'')"
  by (simp add: one_user_users emailOnly_def userA_def eval_simps)

text \<open>
  C5. When the id is in the store, whether \<open>updateUser\<close> fails in validation,
  and with which message, is \<open>patch_verdict patch\<close>: a function of the patch
  that does not see the store. If the patch fails validation the call fails
  with that message, whatever the stored record holds; if it passes, the call
  succeeds or fails with the duplicate-email error.
\<close>

theorem updateUser_validates_patch:
  assumes "list_ex (id_is (parseInt ident)) (users s)"
  shows "case patch_verdict patch of
           Some m \<Rightarrow> updateUser clock s ident patch =
                       (Failure m, notify ''error'' (PError m ''update'') s)
         | None \<Rightarrow> fst (updateUser clock s ident patch) = Failure duplicate_message \<or>
                   is_Success (fst (updateUser clock s ident patch))"
proof -
  from assms obtain i where "findIndex (id_is (parseInt ident)) (users s) = Some i"
    using findIndex_Some_ex by blast
  then show ?thesis
    by (auto simp: updateUser_def updateUser_try_def patch_verdict_def duplicate_message_def
        now_def Let_def split: sum.splits option.splits)
qed

text \<open>A patch with the first name alone is refused for the fields it lacks,
  though the stored record has them all.\<close>

theorem updateUser_validates_patch_witness:
  "list_ex (id_is (parseInt (Num (N 1)))) (users one_user) \<and>
   updateUser clock0 one_user (Num (N 1)) firstNameOnly =
     (Failure (Msg ''lastName is required, email is required, phone is required, userType is required''),
      notify ''error''
        (PError (Msg ''lastName is required, email is required, phone is required, userType is required'')
           ''update'') one_user)"
proof -
  have a: "list_ex (id_is (parseInt (Num (N 1)))) (users one_user)"
    by (simp add: parseInt_1 one_user_users id_is_def get_def)
  have v: "patch_verdict firstNameOnly =
      Some (Msg ''lastName is required, email is required, phone is required, userType is required'')"
    by (simp add: patch_verdict_def firstNameOnly_def eval_simps)
  from a updateUser_validates_patch[OF a, where patch=firstNameOnly and clock=clock0] v
  show ?thesis by simp
qed

section \<open>Properties of the import\<close>

lemma import_loop_create_all:
  "import_loop clock ds res s =
     (\<lparr>success = success res @ created (fst (create_all clock ds s)),
       failed = failed res @ rejected (fst (create_all clock ds s))\<rparr>,
      snd (create_all clock ds s))"
proof (induction ds arbitrary: res s)
  case Nil
  then show ?case by simp
next
  case (Cons d ds)
  show ?case
  proof (cases "createUser clock s d")
    case (Pair r s1)
    then show ?thesis
      by (cases r) (simp_all add: Cons.IH split_beta)
  qed
qed

lemma created_rejected_length: "length (created rs) + length (rejected rs) = length rs"
  by (induction rs rule: created.induct) auto

lemma create_all_length: "length (fst (create_all clock ds s)) = length ds"
  by (induction ds arbitrary: s) (auto simp: split_beta)

lemma create_all_inputs: "map fst (fst (create_all clock ds s)) = ds"
  by (induction ds arbitrary: s) (auto simp: split_beta)

lemma createUser_bulk_events:
  "bulk_events (trace (snd (createUser clock s d))) = bulk_events (trace s)"
  by (auto simp: createUser_def createUser_try_def bulk_events_def notify_def now_def Let_def
      split: sum.splits)

lemma createUser_observers:
  "observers (snd (createUser clock s d)) = observers s"
  by (auto simp: createUser_def createUser_try_def notify_def now_def Let_def
      split: sum.splits)

lemma create_all_bulk_events:
  "bulk_events (trace (snd (create_all clock ds s))) = bulk_events (trace s)"
proof (induction ds arbitrary: s)
  case Nil
  then show ?case by simp
next
  case (Cons d ds)
  then show ?case
    using createUser_bulk_events[of clock s d]
    by (cases "createUser clock s d") (simp add: split_beta)
qed

lemma create_all_observers:
  "observers (snd (create_all clock ds s)) = observers s"
proof (induction ds arbitrary: s)
  case Nil
  then show ?case by simp
next
  case (Cons d ds)
  then show ?case
    using createUser_observers[of clock s d]
    by (cases "createUser clock s d") (simp add: split_beta)
qed

lemma createUser_fresh_email:
  assumes "patch_verdict d = None"
    and "list_all (\<lambda>user. get user ''email'' \<noteq> get d ''email'') (users s)"
  shows "\<exists>u s'. createUser clock s d = (Success u, s') \<and> users s' = users s @ [u] \<and>
           get u ''email'' = get d ''email''"
proof -
  from assms(2) have f: "findUserByEmail s (get d ''email'') = None"
    by (auto simp: findUserByEmail_def find_None_iff list_all_iff)
  from assms(1) obtain v where v: "validateUser d = Inr v" "isValid v"
    by (auto simp: patch_verdict_def split: sum.splits if_splits)
  have g: "get (([''id'' \<mapsto> Num (nextId s)] ++ d)(''createdAt'' \<mapsto> a, ''lastActive'' \<mapsto> b,
      ''status'' \<mapsto> c)) ''email'' = get d ''email''" for a b c
    by (simp add: get_def map_add_def split: option.splits)
  show ?thesis
    by (simp add: createUser_def createUser_try_def v f now_def notify_def Let_def g)
qed

lemma createUser_invalid:
  assumes "patch_verdict d = Some m"
  shows "createUser clock s d = (Failure m, notify ''error'' (PError m ''create'') s)"
  using assms
  by (auto simp: createUser_def createUser_try_def patch_verdict_def split: sum.splits if_splits)

lemma missing_email_invalid:
  assumes "\<not> truthy (get d ''email'')"
  shows "patch_verdict d \<noteq> None"
proof (cases "list_all (\<lambda>field. textual (get d field)) required")
  case True
  have "blank (get d ''email'')" using assms by (cases "get d ''email''") (auto simp: blank_def)
  then have "''email is required'' \<in> set (expected_errors d)"
    by (simp add: expected_errors_def required_def)
  then have "expected_errors d \<noteq> []" by auto
  with True show ?thesis
    by (simp add: patch_verdict_def validateUser_eq)
next
  case False
  then show ?thesis by (simp add: patch_verdict_def validateUser_eq)
qed

lemma import_three:
  assumes v1: "patch_verdict validOne = None" and v2: "patch_verdict validTwo = None"
    and bad: "\<not> truthy (get invalidMissingEmail ''email'')"
    and ne: "get validOne ''email'' \<noteq> get validTwo ''email''"
    and new1: "list_all (\<lambda>user. get user ''email'' \<noteq> get validOne ''email'') (users s)"
    and new2: "list_all (\<lambda>user. get user ''email'' \<noteq> get validTwo ''email'') (users s)"
  shows "length (created (fst (create_all clock [validOne, invalidMissingEmail, validTwo] s))) = 2 \<and>
         length (rejected (fst (create_all clock [validOne, invalidMissingEmail, validTwo] s))) = 1"
proof -
  from createUser_fresh_email[OF v1 new1, of clock] obtain u1 s1 where
    c1: "createUser clock s validOne = (Success u1, s1)" and u1: "users s1 = users s @ [u1]"
    and e1: "get u1 ''email'' = get validOne ''email''" by blast
  from missing_email_invalid[OF bad] obtain m where m: "patch_verdict invalidMissingEmail = Some m"
    by auto
  have c2: "createUser clock s1 invalidMissingEmail = (Failure m, notify ''error'' (PError m ''create'') s1)"
    by (rule createUser_invalid[OF m])
  have new2': "list_all (\<lambda>user. get user ''email'' \<noteq> get validTwo ''email'')
      (users (notify ''error'' (PError m ''create'') s1))"
    using new2 ne by (simp add: notify_def u1 e1)
  from createUser_fresh_email[OF v2 new2', of clock] obtain u3 s3 where
    c3: "createUser clock (notify ''error'' (PError m ''create'') s1) validTwo = (Success u3, s3)" by blast
  show ?thesis by (simp add: c1 c2 c3)
qed

text \<open>
  C6. \<open>importUsers\<close> calls \<open>createUser\<close> once per entry in list order
  (\<open>create_all\<close>). Its result lists the records of the successful calls and,
  with their messages, the entries of the failed ones, so the two lengths add
  up to the length of the input. After the last entry it emits one
  \<open>bulkImport\<close> event carrying these results, and no other \<open>bulkImport\<close>
  event. In particular, for two valid entries with different emails that are
  new to the store and an entry without email between them, two records are
  created and one entry is rejected.
\<close>

theorem importUsers_results:
  "importUsers clock s usersData =
     (\<lparr>success = created (fst (create_all clock usersData s)),
       failed = rejected (fst (create_all clock usersData s))\<rparr>,
      (snd (create_all clock usersData s))
        \<lparr>trace := trace (snd (create_all clock usersData s)) @
           [\<lparr>event = ''bulkImport'',
             data = PResults (created (fst (create_all clock usersData s)))
                             (rejected (fst (create_all clock usersData s))),
             recipients = observers s\<rparr>]\<rparr>) \<and>
   map fst (fst (create_all clock usersData s)) = usersData \<and>
   length (success (fst (importUsers clock s usersData))) +
     length (failed (fst (importUsers clock s usersData))) = length usersData \<and>
   length (bulk_events (trace (snd (importUsers clock s usersData)))) =
     Suc (length (bulk_events (trace s))) \<and>
   (patch_verdict validOne = None \<and> patch_verdict validTwo = None \<and>
    \<not> truthy (get invalidMissingEmail ''email'') \<and>
    get validOne ''email'' \<noteq> get validTwo ''email'' \<and>
    list_all (\<lambda>user. get user ''email'' \<noteq> get validOne ''email'') (users s) \<and>
    list_all (\<lambda>user. get user ''email'' \<noteq> get validTwo ''email'') (users s) \<longrightarrow>
    length (success (fst (importUsers clock s [validOne, invalidMissingEmail, validTwo]))) = 2 \<and>
    length (failed (fst (importUsers clock s [validOne, invalidMissingEmail, validTwo]))) = 1)"
proof -
  have eq: "importUsers clock s ds =
     (\<lparr>success = created (fst (create_all clock ds s)),
       failed = rejected (fst (create_all clock ds s))\<rparr>,
      (snd (create_all clock ds s))
        \<lparr>trace := trace (snd (create_all clock ds s)) @
           [\<lparr>event = ''bulkImport'',
             data = PResults (created (fst (create_all clock ds s)))
                             (rejected (fst (create_all clock ds s))),
             recipients = observers s\<rparr>]\<rparr>)" for ds
    by (simp add: importUsers_def import_loop_create_all notify_def create_all_observers)
  have len: "length (success (fst (importUsers clock s usersData))) +
     length (failed (fst (importUsers clock s usersData))) = length usersData"
    by (simp add: eq created_rejected_length create_all_length)
  have bulk: "length (bulk_events (trace (snd (importUsers clock s usersData)))) =
     Suc (length (bulk_events (trace s)))"
    using create_all_bulk_events[of clock usersData s]
    by (simp add: eq bulk_events_def)
  have three: "length (success (fst (importUsers clock s [validOne, invalidMissingEmail, validTwo]))) = 2 \<and>
    length (failed (fst (importUsers clock s [validOne, invalidMissingEmail, validTwo]))) = 1"
    if "patch_verdict validOne = None" "patch_verdict validTwo = None"
    "\<not> truthy (get invalidMissingEmail ''email'')"
    "get validOne ''email'' \<noteq> get validTwo ''email''"
    "list_all (\<lambda>user. get user ''email'' \<noteq> get validOne ''email'') (users s)"
    "list_all (\<lambda>user. get user ''email'' \<noteq> get validTwo ''email'') (users s)"
    using import_three[OF that, of clock] by (simp only: eq fst_conv results.simps)
  from eq[of usersData] len bulk three create_all_inputs[of clock usersData s]
  show ?thesis by blast
qed

theorem importUsers_results_witness:
  "patch_verdict userA = None \<and> patch_verdict userC = None \<and>
   \<not> truthy (get missingEmail ''email'') \<and>
   get userA ''email'' \<noteq> get userC ''email'' \<and>
   list_all (\<lambda>user. get user ''email'' \<noteq> get userA ''email'') (users (constructor Absent)) \<and>
   list_all (\<lambda>user. get user ''email'' \<noteq> get userC ''email'') (users (constructor Absent)) \<and>
   length (success (fst (importUsers clock0 (constructor Absent) [userA, missingEmail, userC]))) = 2 \<and>
   length (failed (fst (importUsers clock0 (constructor Absent) [userA, missingEmail, userC]))) = 1"
proof -
  have a: "patch_verdict userA = None"
    by (simp add: patch_verdict_def validate_userA)
  have c: "patch_verdict userC = None"
    by (simp add: patch_verdict_def userC_def eval_simps)
  have m: "\<not> truthy (get missingEmail ''email'')"
    by (simp add: missingEmail_def get_def)
  have ne: "get userA ''email'' \<noteq> get userC ''email''"
    by (simp add: userA_def userC_def get_def)
  have e: "users (constructor Absent) = []" by (simp add: constructor_def)
  note three = importUsers_results[where s="constructor Absent" and clock=clock0
      and validOne=userA and validTwo=userC and invalidMissingEmail=missingEmail
      and usersData="[userA, missingEmail, userC]",
      THEN conjunct2, THEN conjunct2, THEN conjunct2, THEN conjunct2]
  from a c m ne e three show ?thesis by simp
qed

section \<open>Recovery of failures\<close>

lemma forEach_returns: "list_all (\<lambda>callback. f callback = None) cs \<Longrightarrow> forEach f cs = (cs, None)"
  by (induction cs) auto

lemma notify_call_quiet: "quiet b s \<Longrightarrow> notify_call b ev d s = (None, notify ev d s)"
proof -
  assume "quiet b s"
  then have "list_all (\<lambda>callback. b callback (trace s) ev d = None) (observers s)"
    by (simp add: quiet_def list_all_iff)
  then show ?thesis
    by (simp add: notify_call_def notify_def forEach_returns)
qed

lemma quiet_observers: "observers s' = observers s \<Longrightarrow> quiet b s' = quiet b s"
  by (simp add: quiet_def)

lemma quiet_notify [simp]: "quiet b (notify ev d s) = quiet b s"
  by (simp add: quiet_def notify_def)

lemma quiet_users [simp]: "quiet b (s\<lparr>users := us\<rparr>) = quiet b s"
  by (simp add: quiet_def)

lemma quiet_nextId [simp]: "quiet b (s\<lparr>nextId := k\<rparr>) = quiet b s"
  by (simp add: quiet_def)

lemma quiet_ticks [simp]: "quiet b (s\<lparr>ticks := k\<rparr>) = quiet b s"
  by (simp add: quiet_def)

text \<open>When every subscriber returns, the \<open>try\<close> blocks are those defined with
  \<open>notify\<close>, and the promises are fulfilled with what the operations defined
  there return.\<close>

lemma createUser_block_quiet:
  assumes "quiet b s"
  shows "createUser_block b clock s userData =
           (case createUser_try clock s userData of
              Inl e \<Rightarrow> (Inl e, s)
            | Inr (newUser, s') \<Rightarrow> (Inr newUser, s'))"
  using assms
  by (simp add: createUser_block_def createUser_try_def now_def Let_def notify_call_quiet
      split: sum.split)

lemma updateUser_block_quiet:
  assumes "quiet b s"
  shows "updateUser_block b clock s ident userData =
           (case updateUser_try clock s ident userData of
              Inl e \<Rightarrow> (Inl e, s)
            | Inr (updated, s') \<Rightarrow> (Inr updated, s'))"
  using assms
  by (simp add: updateUser_block_def updateUser_try_def now_def Let_def notify_call_quiet
      split: sum.split option.split)

lemma deleteUser_block_quiet:
  assumes "quiet b s"
  shows "deleteUser_block b s ident =
           (case deleteUser_try s ident of
              Inl e \<Rightarrow> (Inl e, s)
            | Inr (deletedUser, s') \<Rightarrow> (Inr deletedUser, s'))"
  using assms
  by (simp add: deleteUser_block_def deleteUser_try_def Let_def notify_call_quiet
      split: sum.split option.split)

lemma createUser_call_quiet:
  assumes "quiet b s"
  shows "createUser_call b clock s userData =
           (Fulfilled (fst (createUser clock s userData)), snd (createUser clock s userData))"
  using assms
  by (simp add: createUser_call_def createUser_block_quiet createUser_def settle_def
      notify_call_quiet split: sum.split prod.split)

lemma updateUser_call_quiet:
  assumes "quiet b s"
  shows "updateUser_call b clock s ident userData =
           (Fulfilled (fst (updateUser clock s ident userData)),
            snd (updateUser clock s ident userData))"
  using assms
  by (simp add: updateUser_call_def updateUser_block_quiet updateUser_def settle_def
      notify_call_quiet split: sum.split prod.split)

lemma deleteUser_call_quiet:
  assumes "quiet b s"
  shows "deleteUser_call b s ident =
           (Fulfilled (fst (deleteUser s ident)), snd (deleteUser s ident))"
  using assms
  by (simp add: deleteUser_call_def deleteUser_block_quiet deleteUser_def settle_def
      notify_call_quiet split: sum.split prod.split)




lemma calm_observers: "observers s' = observers s \<Longrightarrow> calm b s' = calm b s"
  by (simp add: calm_def)













text \<open>An exception of a subscriber is caught like any other, after the store has
  been changed: the call reports a failure, yet the record is stored and the
  counter has advanced.\<close>

lemma stored_although_failed:
  "fst (createUser_call touchy clock0 (subscribe 0 (constructor Absent)) userA) =
     Fulfilled (Failure (Msg ''boom'')) \<and>
   length (users (snd (createUser_call touchy clock0 (subscribe 0 (constructor Absent)) userA))) = 1 \<and>
   nextId (snd (createUser_call touchy clock0 (subscribe 0 (constructor Absent)) userA)) = N 2"
  unfolding createUser_call_def createUser_block_def validate_userA
  by (simp add: settle_def findUserByEmail_def now_def notify_call_def touchy_def constructor_def
      subscribe_def Let_def)

section \<open>Ids given as strings\<close>

lemma getUserById_addresses:
  "id_is (parseInt ident) = has_id k \<Longrightarrow> getUserById s ident = find (has_id k) (users s)"
  by (simp add: getUserById_def)

lemma deleteUser_addresses:
  assumes "id_is (parseInt ident) = has_id k"
  shows "deleteUser s ident = deleteUser_of s k"
  by (cases "findIndex (has_id k) (users s)")
    (simp_all add: deleteUser_def deleteUser_try_def deleteUser_of_def assms notify_def Let_def)

lemma updateUser_addresses:
  assumes "id_is (parseInt ident) = has_id k"
  shows "updateUser clock s ident patch = updateUser_of clock s k patch"
proof (cases "findIndex (has_id k) (users s)")
  case None
  then show ?thesis
    by (simp add: updateUser_def updateUser_try_def updateUser_of_def assms)
next
  case (Some i)
  show ?thesis
  proof (cases "validateUser patch")
    case (Inl e)
    with Some show ?thesis
      by (simp add: updateUser_def updateUser_try_def updateUser_of_def assms patch_verdict_def)
  next
    case (Inr v)
    with Some show ?thesis
      by (simp add: updateUser_def updateUser_try_def updateUser_of_def assms patch_verdict_def
          duplicate_message_def merged_def now_def notify_def Let_def cong: option.case_cong)
  qed
qed

text \<open>
  C10, as the code has it. The three operations compare the ids of the
  records with \<open>parseInt\<close> of their argument. Let \<open>k\<close> be a Number and \<open>str\<close> a
  string whose leading decimal digits denote \<open>k\<close> and which does not begin
  with \<open>0x\<close> or \<open>0X\<close>. Then, given the Number or the string, \<open>getUserById\<close>
  returns the first record whose id is \<open>k\<close>, and \<open>updateUser\<close> and
  \<open>deleteUser\<close> do what \<open>updateUser_of\<close> and \<open>deleteUser_of\<close> describe for the
  id \<open>k\<close>: they fail with \<open>User not found\<close> when no record has the id \<open>k\<close>, and
  otherwise it is the first record with the id \<open>k\<close> that is replaced by its
  merge with the patch, or removed and returned.
\<close>

theorem id_coerced_by_parseInt:
  assumes "denotes str (int_of k)" and "\<not> hex_prefixed str"
  shows "getUserById s (Num k) = find (has_id k) (users s) \<and>
         getUserById s (Str str) = find (has_id k) (users s) \<and>
         updateUser clock s (Num k) patch = updateUser_of clock s k patch \<and>
         updateUser clock s (Str str) patch = updateUser_of clock s k patch \<and>
         deleteUser s (Num k) = deleteUser_of s k \<and>
         deleteUser s (Str str) = deleteUser_of s k"
  using assms
  by (simp add: getUserById_addresses updateUser_addresses deleteUser_addresses
      id_is_parseInt_Num id_is_parseInt_Str)

lemma one_user_findIndex: "findIndex (has_id (N 1)) (users one_user) = Some 0"
  by (simp add: one_user_users has_id_def get_def)

theorem id_coerced_by_parseInt_witness:
  "denotes one_x (int_of (N 1)) \<and> \<not> hex_prefixed one_x \<and>
   getUserById one_user (Str one_x) = Some (hd (users one_user)) \<and>
   get (hd (users one_user)) ''id'' = Num (N 1) \<and>
   fst (deleteUser one_user (Str one_x)) = Success (hd (users one_user)) \<and>
   users (snd (deleteUser one_user (Str one_x))) = []"
proof -
  have a: "denotes one_x (int_of (N 1))"
    by (simp add: denotes_def leading_decimal_def one_x_def is_digit_def digit_val_def
        digits_value_def Let_def)
  have b: "\<not> hex_prefixed one_x"
    by (simp add: hex_prefixed_def starts_with_def one_x_def)
  have c: "find (has_id (N 1)) (users one_user) = Some (hd (users one_user))"
    by (simp add: one_user_users has_id_def get_def)
  have d: "get (hd (users one_user)) ''id'' = Num (N 1)"
    by (simp add: one_user_users get_def)
  have e: "fst (deleteUser_of one_user (N 1)) = Success (hd (users one_user)) \<and>
           users (snd (deleteUser_of one_user (N 1))) = []"
    by (simp add: deleteUser_of_def one_user_findIndex) (simp add: one_user_users splice1_def)
  from a b c d e id_coerced_by_parseInt[OF a b, of one_user] show ?thesis by simp
qed

text \<open>The claim C10 as stated fails for the id 0 and a string that begins with
  \<open>0x\<close>: the leading decimal digits of \<open>0x10\<close> denote 0, but \<open>parseInt\<close> reads
  the string as the hexadecimal numeral of 16. The Number 0 addresses the
  record with the id 0, the string does not.\<close>

theorem hex_string_counterexample:
  "denotes hex_sixteen 0 \<and>
   parseInt (Str hex_sixteen) = Some 16 \<and>
   getUserById zero_store (Num (N 0)) \<noteq> None \<and>
   getUserById zero_store (Str hex_sixteen) = None \<and>
   fst (deleteUser zero_store (Str hex_sixteen)) = Failure (Msg ''User not found'')"
proof -
  have u: "users zero_store =
     [userA(''id'' \<mapsto> Num (N 0), ''createdAt'' \<mapsto> Str (clock0 0),
            ''lastActive'' \<mapsto> Str (clock0 1), ''status'' \<mapsto> Str ''active'')]"
    unfolding zero_store_def createUser_def createUser_try_def
    by (auto simp: validateUser_def required_def get_def trim_def is_ws_def isValidEmail_def
        emailRegex_test_def email_char_def validTypes_def validStatuses_def
        findUserByEmail_def now_def notify_def constructor_def Let_def
        userA_def map_add_def intro!: ext)
  have p: "parseInt (Str hex_sixteen) = Some 16"
    by (simp add: hex_sixteen_def parseInt_simps)
  have d: "denotes hex_sixteen 0"
    by (simp add: denotes_def leading_decimal_def hex_sixteen_def is_digit_def digit_val_def
        digits_value_def Let_def)
  show ?thesis
    by (simp add: d p getUserById_def deleteUser_def deleteUser_try_def u id_is_def
        parseInt_Num get_def)
qed

section \<open>Properties of the id counter\<close>

lemma below_mono: "below a v \<Longrightarrow> a \<le> b \<Longrightarrow> below b v"
  by (cases v) auto

lemma at_least_mono: "at_least b v \<Longrightarrow> a \<le> b \<Longrightarrow> at_least a v"
  by (cases v) auto

lemma below_at_least_less: "below b x \<Longrightarrow> at_least b y \<Longrightarrow> id_less x y"
  by (cases x; cases y) auto

lemma list_all_below_mono: "list_all (below a) vs \<Longrightarrow> a \<le> b \<Longrightarrow> list_all (below b) vs"
  by (induction vs) (auto intro: below_mono)

lemma advances_refl: "advances s s"
  by (simp add: advances_def newly_created_def)

lemma advances_appendI:
  assumes "int_of (nextId s) \<le> int_of (nextId s')" "created_ids s' = created_ids s @ new"
    "list_all (at_least (int_of (nextId s))) new"
  shows "advances s s'"
  using assms by (simp add: advances_def newly_created_def)

lemma advancesE:
  assumes "advances s s'"
  obtains new where "int_of (nextId s) \<le> int_of (nextId s')"
    "created_ids s' = created_ids s @ new" "list_all (at_least (int_of (nextId s))) new"
proof -
  from assms have "created_ids s' = created_ids s @ newly_created s s'"
    unfolding advances_def newly_created_def
    by (metis append_take_drop_id)
  with assms that show ?thesis by (auto simp: advances_def)
qed

lemma advances_trans:
  assumes "advances s s1" "advances s1 s2"
  shows "advances s s2"
proof -
  from assms(1) obtain n1 where a: "int_of (nextId s) \<le> int_of (nextId s1)"
    "created_ids s1 = created_ids s @ n1"
    "list_all (at_least (int_of (nextId s))) n1" by (rule advancesE)
  from assms(2) obtain n2 where b: "int_of (nextId s1) \<le> int_of (nextId s2)"
    "created_ids s2 = created_ids s1 @ n2"
    "list_all (at_least (int_of (nextId s1))) n2" by (rule advancesE)
  have "list_all (at_least (int_of (nextId s))) n2"
    using b(3) a(1) by (induction n2) (auto intro: at_least_mono)
  with a b show ?thesis
    by (intro advances_appendI[where new="n1 @ n2"]) auto
qed

lemma created_ids_notify:
  "created_ids (notify ev d s) = created_ids s @ created_id \<lparr>event = ev, data = d, recipients = observers s\<rparr>"
  by (simp add: created_ids_def notify_def)

lemma created_ids_append_trace:
  "created_ids (s\<lparr>trace := trace s @ ns\<rparr>) = created_ids s @ concat (map created_id ns)"
  by (simp add: created_ids_def)

lemma get_new_id:
  "\<not> carries_id d \<Longrightarrow>
   get (([''id'' \<mapsto> Num k] ++ d)(''createdAt'' \<mapsto> a, ''lastActive'' \<mapsto> b, ''status'' \<mapsto> c)) ''id'' = Num k"
  by (simp add: get_def carries_id_def map_add_def)

lemma createUser_assigns_counter:
  assumes "\<not> carries_id d" and "createUser clock s d = (Success u, s')"
  shows "get u ''id'' = Num (nextId s) \<and> nextId s' = succ (nextId s) \<and> users s' = users s @ [u]"
  using assms
  by (auto simp: createUser_def createUser_try_def now_def notify_def Let_def get_new_id
      split: sum.splits if_splits)

text \<open>At \<open>2^53\<close> the counter does not advance: the next record gets the same id
  again.\<close>

lemma createUser_counter_saturates:
  assumes "int_of (nextId s) = limit" and "\<not> carries_id d"
    and "createUser clock s d = (Success u, s')"
  shows "get u ''id'' = Num (nextId s) \<and> nextId s' = nextId s"
proof -
  from assms(1) have "succ (nextId s) = nextId s"
    by (simp add: succ_def flip: int_of_eq_iff) (simp add: limit_def)
  with createUser_assigns_counter[OF assms(2,3)] show ?thesis by simp
qed

text \<open>A call of \<open>createUser\<close> advances the counter by one at most, and the other
  operations leave it as it is.\<close>

lemma createUser_counter_le:
  "int_of (nextId (snd (createUser clock s d))) \<le> int_of (nextId s) + 1"
  by (auto simp: createUser_def createUser_try_def now_def notify_def Let_def int_of_succ
      split: sum.splits)

lemma updateUser_counter: "nextId (snd (updateUser clock s ident d)) = nextId s"
  by (auto simp: updateUser_def updateUser_try_def now_def notify_def Let_def
      split: sum.splits option.splits)

lemma deleteUser_counter: "nextId (snd (deleteUser s ident)) = nextId s"
  by (auto simp: deleteUser_def deleteUser_try_def notify_def Let_def
      split: sum.splits option.splits)

lemma import_loop_counter_le:
  "int_of (nextId (snd (import_loop clock ds res s))) \<le> int_of (nextId s) + int (length ds)"
proof (induction ds arbitrary: res s)
  case Nil
  show ?case by simp
next
  case (Cons d ds)
  show ?case
  proof (cases "createUser clock s d")
    case (Pair r s1)
    with createUser_counter_le[of clock s d]
    have s1: "int_of (nextId s1) \<le> int_of (nextId s) + 1" by simp
    show ?thesis
    proof (cases r)
      case (Success u)
      from Cons.IH[of "res\<lparr>success := success res @ [u]\<rparr>" s1] Pair Success s1
      show ?thesis by simp
    next
      case (Failure m)
      from Cons.IH[of "res\<lparr>failed := failed res @ [(d, m)]\<rparr>" s1] Pair Failure s1
      show ?thesis by simp
    qed
  qed
qed

lemma apply_op_counter_le:
  "int_of (nextId (apply_op clock x s)) \<le> int_of (nextId s) + int (creations_of x)"
proof (cases x)
  case (Create d)
  with createUser_counter_le[of clock s d] show ?thesis by simp
next
  case (Import ds)
  obtain res s1 where l: "import_loop clock ds \<lparr>success = [], failed = []\<rparr> s = (res, s1)"
    by (cases "import_loop clock ds \<lparr>success = [], failed = []\<rparr> s")
  with import_loop_counter_le[of clock ds "\<lparr>success = [], failed = []\<rparr>" s] Import
  show ?thesis by (simp add: importUsers_def notify_def)
qed (simp_all add: updateUser_counter deleteUser_counter saveUsers_def notify_def Let_def
      subscribe_def unsubscribe_def)

lemma createUser_step:
  assumes "counter_inv s" "\<not> carries_id d" "int_of (nextId s) < limit"
  shows "counter_inv (snd (createUser clock s d)) \<and> advances s (snd (createUser clock s d))"
proof (cases "createUser_try clock s d")
  case (Inl e)
  then have s': "snd (createUser clock s d) = notify ''error'' (PError (message_of e) ''create'') s"
    by (simp add: createUser_def)
  have c: "created_ids (snd (createUser clock s d)) = created_ids s"
    by (simp add: s' created_ids_notify)
  have "nextId (snd (createUser clock s d)) = nextId s" "users (snd (createUser clock s d)) = users s"
    by (simp_all add: s' notify_def)
  with c assms(1) show ?thesis
    by (simp add: counter_inv_def advances_def newly_created_def)
next
  case (Inr r)
  define u where "u = fst r"
  define c where "c = int_of (nextId s)"
  have u: "get u ''id'' = Num (nextId s)"
    using Inr assms(2)
    by (auto simp: u_def createUser_try_def now_def notify_def Let_def get_new_id
        split: sum.splits if_splits)
  have s': "users (snd (createUser clock s d)) = users s @ [u]"
     "nextId (snd (createUser clock s d)) = succ (nextId s)"
     "created_ids (snd (createUser clock s d)) = created_ids s @ [get u ''id'']"
    using Inr
    by (auto simp: u_def createUser_def createUser_try_def now_def notify_def Let_def created_ids_def
        split: sum.splits if_splits)
  from assms(3) have n: "int_of (succ (nextId s)) = c + 1"
    by (simp add: int_of_succ c_def)
  from assms(1) have i: "sorted_wrt id_less (created_ids s)"
    "list_all (below c) (created_ids s)"
    "list_all (\<lambda>user. below c (get user ''id'')) (users s)"
    by (simp_all add: counter_inv_def c_def)
  have b: "below (c + 1) (Num (nextId s))" "at_least c (Num (nextId s))"
    by (simp_all add: c_def)
  have 1: "sorted_wrt id_less (created_ids s @ [Num (nextId s)])"
    using i(1,2) b(2) by (auto simp: sorted_wrt_append list_all_iff intro: below_at_least_less)
  have 2: "list_all (below (c + 1)) (created_ids s @ [Num (nextId s)])"
    using list_all_below_mono[OF i(2), of "c + 1"] b(1) by simp
  have 3: "list_all (\<lambda>user. below (c + 1) (get user ''id'')) (users s @ [u])"
    using i(3) u b(1) by (auto simp: list_all_iff intro: below_mono)
  have "advances s (snd (createUser clock s d))"
    by (rule advances_appendI[where new="[Num (nextId s)]"]) (simp_all add: s' u n c_def)
  with 1 2 3 show ?thesis by (simp add: counter_inv_def s' u n c_def)
qed

lemma counter_inv_same:
  assumes "counter_inv s" "created_ids s' = created_ids s" "nextId s' = nextId s"
    "list_all (\<lambda>user. below (int_of (nextId s)) (get user ''id'')) (users s')"
  shows "counter_inv s' \<and> advances s s'"
  using assms by (simp add: counter_inv_def advances_def newly_created_def)

lemma findIndex_less: "findIndex P xs = Some i \<Longrightarrow> i < length xs"
  by (induction xs arbitrary: i) (auto split: if_splits)

lemma get_merged_id:
  "\<not> carries_id d \<Longrightarrow> get ((old ++ d)(''lastModified'' \<mapsto> t)) ''id'' = get old ''id''"
  by (simp add: get_def carries_id_def map_add_def)

lemma updateUser_step:
  assumes "counter_inv s" "\<not> carries_id d"
  shows "counter_inv (snd (updateUser clock s ident d)) \<and>
         advances s (snd (updateUser clock s ident d))"
proof (cases "updateUser_try clock s ident d")
  case (Inl e)
  then have s': "snd (updateUser clock s ident d) = notify ''error'' (PError (message_of e) ''update'') s"
    by (simp add: updateUser_def)
  show ?thesis
    using assms(1)
    by (intro counter_inv_same) (simp_all add: s' created_ids_notify counter_inv_def, simp_all add: notify_def)
next
  case (Inr r)
  then obtain i where i: "findIndex (id_is (parseInt ident)) (users s) = Some i"
    by (auto simp: updateUser_try_def split: option.splits)
  define upd where "upd = (users s ! i ++ d)(''lastModified'' \<mapsto> Str (clock (ticks s)))"
  from i have il: "i < length (users s)" by (rule findIndex_less)
  have s': "users (snd (updateUser clock s ident d)) = (users s)[i := upd]"
     "nextId (snd (updateUser clock s ident d)) = nextId s"
     "created_ids (snd (updateUser clock s ident d)) = created_ids s"
    using Inr i
    by (auto simp: upd_def updateUser_def updateUser_try_def now_def notify_def Let_def created_ids_def
        split: sum.splits if_splits)
  from assms(1) have b: "list_all (\<lambda>user. below (int_of (nextId s)) (get user ''id'')) (users s)"
    by (simp add: counter_inv_def)
  with il have "below (int_of (nextId s)) (get (users s ! i) ''id'')"
    by (simp add: list_all_length)
  then have "below (int_of (nextId s)) (get upd ''id'')"
    by (simp add: upd_def get_merged_id[OF assms(2)])
  with b have "list_all (\<lambda>user. below (int_of (nextId s)) (get user ''id'')) ((users s)[i := upd])"
    by (auto simp: list_all_iff dest!: subsetD[OF set_update_subset_insert])
  then show ?thesis
    using assms(1) by (intro counter_inv_same) (simp_all add: s')
qed

lemma deleteUser_step:
  assumes "counter_inv s"
  shows "counter_inv (snd (deleteUser s ident)) \<and> advances s (snd (deleteUser s ident))"
proof (cases "deleteUser_try s ident")
  case (Inl e)
  then have s': "snd (deleteUser s ident) = notify ''error'' (PError (message_of e) ''delete'') s"
    by (simp add: deleteUser_def)
  show ?thesis
    using assms(1)
    by (intro counter_inv_same) (simp_all add: s' created_ids_notify counter_inv_def, simp_all add: notify_def)
next
  case (Inr r)
  then obtain i where i: "findIndex (id_is (parseInt ident)) (users s) = Some i"
    by (auto simp: deleteUser_try_def split: option.splits)
  have s': "users (snd (deleteUser s ident)) = splice1 i (users s)"
     "nextId (snd (deleteUser s ident)) = nextId s"
     "created_ids (snd (deleteUser s ident)) = created_ids s"
    using Inr i
    by (auto simp: deleteUser_def deleteUser_try_def notify_def Let_def created_ids_def
        split: sum.splits if_splits)
  from assms(1) have b: "list_all (\<lambda>user. below (int_of (nextId s)) (get user ''id'')) (users s)"
    by (simp add: counter_inv_def)
  then have "list_all (\<lambda>user. below (int_of (nextId s)) (get user ''id'')) (splice1 i (users s))"
    by (auto simp: splice1_def list_all_iff dest: in_set_takeD in_set_dropD)
  then show ?thesis
    using assms(1) by (intro counter_inv_same) (simp_all add: s')
qed

lemma import_loop_step:
  assumes "counter_inv s" "list_all (\<lambda>userData. \<not> carries_id userData) ds"
    "int_of (nextId s) + int (length ds) \<le> limit"
  shows "counter_inv (snd (import_loop clock ds res s)) \<and>
         advances s (snd (import_loop clock ds res s))"
  using assms
proof (induction ds arbitrary: res s)
  case Nil
  then show ?case by (simp add: advances_refl)
next
  case (Cons d ds)
  from Cons.prems have d: "\<not> carries_id d" and ds: "list_all (\<lambda>userData. \<not> carries_id userData) ds"
    and l: "int_of (nextId s) < limit"
    by simp_all
  from createUser_step[OF Cons.prems(1) d l, of clock]
  have c: "counter_inv (snd (createUser clock s d))" "advances s (snd (createUser clock s d))"
    by simp_all
  show ?case
  proof (cases "createUser clock s d")
    case (Pair r s1)
    with c have c1: "counter_inv s1" "advances s s1" by simp_all
    from createUser_counter_le[of clock s d] Pair Cons.prems(3)
    have "int_of (nextId s1) + int (length ds) \<le> limit" by simp
    from Cons.IH[OF c1(1) ds this] c1(2) Pair show ?thesis
      by (cases r) (auto intro: advances_trans)
  qed
qed

lemma importUsers_step:
  assumes "counter_inv s" "list_all (\<lambda>userData. \<not> carries_id userData) ds"
    "int_of (nextId s) + int (length ds) \<le> limit"
  shows "counter_inv (snd (importUsers clock s ds)) \<and> advances s (snd (importUsers clock s ds))"
proof -
  obtain res s1 where l: "import_loop clock ds \<lparr>success = [], failed = []\<rparr> s = (res, s1)"
    by (cases "import_loop clock ds \<lparr>success = [], failed = []\<rparr> s")
  with import_loop_step[OF assms, of clock "\<lparr>success = [], failed = []\<rparr>"]
  have c: "counter_inv s1" "advances s s1" by simp_all
  have s': "snd (importUsers clock s ds) = notify ''bulkImport'' (PResults (success res) (failed res)) s1"
    by (simp add: importUsers_def l)
  have "counter_inv (snd (importUsers clock s ds)) \<and> advances s1 (snd (importUsers clock s ds))"
    using c(1)
    by (intro counter_inv_same) (simp_all add: s' created_ids_notify counter_inv_def, simp_all add: notify_def)
  with c(2) show ?thesis by (auto intro: advances_trans)
qed

lemma apply_op_step:
  assumes "counter_inv s" "id_free x" "int_of (nextId s) + int (creations_of x) \<le> limit"
  shows "counter_inv (apply_op clock x s) \<and> advances s (apply_op clock x s)"
proof (cases x)
  case (Create d)
  with assms createUser_step[of s d clock] show ?thesis by simp
next
  case (Update ident d)
  with assms updateUser_step[of s d clock ident] show ?thesis by simp
next
  case (Delete ident)
  with assms deleteUser_step[of s ident] show ?thesis by simp
next
  case (Import ds)
  with assms importUsers_step[of s ds clock] show ?thesis by simp
next
  case Save
  show ?thesis
    using assms(1) unfolding Save
    by (intro counter_inv_same)
      (simp_all add: saveUsers_def Let_def created_ids_notify counter_inv_def,
       simp_all add: notify_def created_ids_def)
next
  case (Subscribe c)
  show ?thesis
    using assms(1) unfolding Subscribe
    by (intro counter_inv_same) (simp_all add: subscribe_def created_ids_def counter_inv_def)
next
  case (Unsubscribe c)
  show ?thesis
    using assms(1) unfolding Unsubscribe
    by (intro counter_inv_same) (simp_all add: unsubscribe_def created_ids_def counter_inv_def)
qed

lemma run_step:
  assumes "counter_inv s" "list_all id_free ops" "int_of (nextId s) + int (creations ops) \<le> limit"
  shows "counter_inv (run clock ops s) \<and> advances s (run clock ops s)"
  using assms
proof (induction ops arbitrary: s)
  case Nil
  then show ?case by (simp add: advances_refl)
next
  case (Cons x xs)
  from Cons.prems have x: "id_free x" and xs: "list_all id_free xs"
    and l: "int_of (nextId s) + int (creations_of x) + int (creations xs) \<le> limit"
    by (simp_all add: creations_def)
  from l have lx: "int_of (nextId s) + int (creations_of x) \<le> limit" by simp
  from apply_op_step[OF Cons.prems(1) x lx, of clock]
  have a: "counter_inv (apply_op clock x s)" "advances s (apply_op clock x s)" by simp_all
  from apply_op_counter_le[of clock x s] l
  have "int_of (nextId (apply_op clock x s)) + int (creations xs) \<le> limit" by simp
  from Cons.IH[OF a(1) xs this] a(2) show ?case by (auto intro: advances_trans)
qed

lemma counter_inv_constructor: "counter_inv (constructor slot)"
  by (simp add: counter_inv_def constructor_def created_ids_def)

lemma create_each_step:
  assumes "counter_inv s" "list_all (\<lambda>userData. \<not> carries_id userData) ds"
    "int_of (nextId s) + int (length ds) \<le> limit"
  shows "counter_inv (create_each clock ds s)"
  using assms
proof (induction ds arbitrary: s)
  case Nil
  then show ?case by simp
next
  case (Cons d ds)
  from Cons.prems have l: "int_of (nextId s) < limit" by simp
  from Cons.prems(1,2) l createUser_step[of s d clock]
  have c: "counter_inv (snd (createUser clock s d))" by simp
  from createUser_counter_le[of clock s d] Cons.prems(3)
  have "int_of (nextId (snd (createUser clock s d))) + int (length ds) \<le> limit" by simp
  with Cons c show ?case by simp
qed

lemma max_with_zero_bound:
  "max_with_zero vs = Some m \<Longrightarrow> Num k \<in> set vs \<Longrightarrow> int_of k \<le> int_of m"
proof (induction vs arbitrary: m)
  case Nil
  then show ?case by simp
next
  case (Cons v vs)
  from Cons.prems(1) obtain n m' where n: "to_number v = Some n" "max_with_zero vs = Some m'"
    "m = max_number n m'"
    by (auto split: option.splits)
  show ?case
  proof (cases "Num k = v")
    case True
    with n show ?thesis by (auto simp: max_number_def)
  next
    case False
    with Cons.prems(2) have "Num k \<in> set vs" by simp
    from Cons.IH[OF n(2) this] n(3) show ?thesis by (simp add: max_number_def)
  qed
qed

text \<open>The greatest of the ids and 0 is 0 or one of the ids, so it is below
  \<open>2^53\<close> when they are.\<close>

lemma max_with_zero_less:
  "max_with_zero vs = Some m \<Longrightarrow> list_all (below limit) vs \<Longrightarrow> int_of m < limit"
proof (induction vs arbitrary: m)
  case Nil
  then show ?case by (auto simp: limit_def)
next
  case (Cons v vs)
  from Cons.prems(1) obtain n m' where n: "to_number v = Some n" "max_with_zero vs = Some m'"
    "m = max_number n m'"
    by (auto split: option.splits)
  from Cons.prems(2) have v: "below limit v" and vs: "list_all (below limit) vs" by simp_all
  from v n(1) have "int_of n < limit" by (cases v) auto
  with Cons.IH[OF n(2) vs] n(3) show ?case by (simp add: max_number_def)
qed

lemma counter_inv_notify:
  "counter_inv s \<Longrightarrow> ev \<noteq> ''userCreated'' \<Longrightarrow> counter_inv (notify ev d s)"
  by (simp add: counter_inv_def created_ids_notify, simp add: notify_def)

text \<open>After \<open>loadUsers\<close> on a new service the invariant holds, when the stored
  ids are Numbers below \<open>2^53\<close>. (With a stored id \<open>2^53\<close> the counter is set to
  \<open>2^53\<close> itself.)\<close>

lemma counter_inv_after_load:
  assumes "loadUsers clock (constructor slot) = Some (r, s')"
    and "\<And>us. slot = Doc us \<Longrightarrow> list_all (\<lambda>user. below limit (get user ''id'')) us"
  shows "counter_inv s'"
proof (cases slot)
  case Absent
  have "list_all (\<lambda>userData. \<not> carries_id userData) sampleUsers"
    by (simp add: sampleUsers_def carries_id_def)
  moreover have "int_of (nextId (constructor Absent)) + int (length sampleUsers) \<le> limit"
    by (simp add: constructor_def sampleUsers_def limit_def)
  ultimately have "counter_inv (loadSampleData clock (constructor Absent))"
    unfolding loadSampleData_def
    by (rule create_each_step[OF counter_inv_constructor])
  moreover have "storage (constructor Absent) = Absent" by (simp add: constructor_def)
  ultimately show ?thesis
    using assms(1) Absent
    by (auto simp: loadUsers_def loadUsers_try_def intro!: counter_inv_notify)
next
  case Unparsable
  with assms(1) show ?thesis
    by (auto simp: loadUsers_def loadUsers_try_def constructor_def counter_inv_def created_ids_def
        notify_def)
next
  case (Doc us)
  with assms(1) obtain m where m: "max_with_zero (map (\<lambda>u. get u ''id'') us) = Some m"
    and s': "s' = notify ''usersLoaded'' (PUsers us) ((constructor slot)\<lparr>users := us, nextId := succ m\<rparr>)"
    by (auto simp: loadUsers_def loadUsers_try_def constructor_def)
  from assms(2)[OF Doc] have "list_all (below limit) (map (\<lambda>u. get u ''id'') us)"
    by (simp add: list_all_iff)
  from max_with_zero_less[OF m this] have n: "int_of (succ m) = int_of m + 1"
    by (simp add: int_of_succ)
  have "below (int_of m + 1) (get user ''id'')" if "user \<in> set us" for user
  proof -
    from assms(2)[OF Doc] that obtain k where k: "get user ''id'' = Num k"
      by (cases "get user ''id''") (auto simp: list_all_iff)
    with that have "Num k \<in> set (map (\<lambda>u. get u ''id'') us)" by force
    from max_with_zero_bound[OF m this] k show ?thesis by simp
  qed
  then show ?thesis
    by (simp add: s' counter_inv_def created_ids_def notify_def constructor_def list_all_iff n)
qed

lemmas run_simps = eval_simps deleteUser_def deleteUser_try_def id_is_def splice1_def
  saveUsers_def JSON_stringify_def without_undefined_def created_ids_def map_add_def
  userA_def userC_def userD_def parseInt_Num max_number_def

lemma run3: "created_ids (run clock0 (two_created_one_deleted @ [Create userD]) (subscribe 0 (constructor Absent))) = [Num (N 1), Num (N 2), Num (N 3)]"
  by (simp add: two_created_one_deleted_def run_simps)


text \<open>
  C1, as the code has it. Take a service whose counter invariant holds: a newly
  constructed one (\<open>counter_inv_constructor\<close>), or one that has just loaded
  the sample data or records whose ids are Numbers below \<open>2^53\<close>
  (\<open>counter_inv_after_load\<close>). Take any sequence of \<open>createUser\<close>,
  \<open>updateUser\<close>, \<open>deleteUser\<close>, \<open>importUsers\<close>, \<open>saveUsers\<close>, \<open>subscribe\<close> and
  \<open>unsubscribe\<close> whose inputs carry no \<open>id\<close> property and whose calls of
  \<open>createUser\<close> do not take the counter beyond \<open>2^53\<close>, where it stops
  (\<open>createUser_counter_saturates\<close>). Then the ids that \<open>createUser\<close> gives out
  are strictly increasing, each at least the counter at the start and so
  greater than every id given out or stored before; an id is not given out
  twice, also after its record is deleted.
\<close>

theorem createUser_ids_increase:
  assumes "counter_inv s" and "list_all id_free ops"
    and "int_of (nextId s) + int (creations ops) \<le> limit"
  shows "sorted_wrt id_less (created_ids (run clock ops s)) \<and>
         advances s (run clock ops s) \<and>
         counter_inv (run clock ops s)"
  using run_step[OF assms, of clock] by (simp add: counter_inv_def)

theorem createUser_ids_increase_witness:
  "counter_inv (subscribe 0 (constructor Absent)) \<and>
   list_all id_free (two_created_one_deleted @ [Create userD]) \<and>
   int_of (nextId (subscribe 0 (constructor Absent))) +
     int (creations (two_created_one_deleted @ [Create userD])) \<le> limit \<and>
   created_ids (run clock0 (two_created_one_deleted @ [Create userD]) (subscribe 0 (constructor Absent))) =
     [Num (N 1), Num (N 2), Num (N 3)] \<and>
   sorted_wrt id_less
     (created_ids (run clock0 (two_created_one_deleted @ [Create userD]) (subscribe 0 (constructor Absent)))) \<and>
   advances (subscribe 0 (constructor Absent))
     (run clock0 (two_created_one_deleted @ [Create userD]) (subscribe 0 (constructor Absent)))"
proof -
  have i: "counter_inv (subscribe 0 (constructor Absent))"
    by (simp add: counter_inv_def subscribe_def constructor_def created_ids_def)
  have f: "list_all id_free (two_created_one_deleted @ [Create userD])"
    by (simp add: two_created_one_deleted_def carries_id_def userA_def userC_def userD_def)
  have l: "int_of (nextId (subscribe 0 (constructor Absent))) +
     int (creations (two_created_one_deleted @ [Create userD])) \<le> limit"
    by (simp add: subscribe_def constructor_def creations_def two_created_one_deleted_def limit_def)
  from i f l run3 createUser_ids_increase[OF i f l, of clock0] show ?thesis by simp
qed

text \<open>
  The claim C1 as stated, for every sequence of operations, fails when
  \<open>loadUsers\<close> is among them: it sets the counter to the greatest stored id
  plus one. After two records are created, the second is deleted and the store
  is saved, a reload puts the counter back to 2 and the next record gets the id
  2 of the deleted one.
\<close>

theorem id_reused_after_load_counterexample:
  "map_option created_ids reuse_scenario = Some [Num (N 1), Num (N 2), Num (N 2)]"
  by (simp add: reuse_scenario_def two_created_one_deleted_def loadUsers_def loadUsers_try_def
      run_simps)

text \<open>An \<open>id\<close> property of the input takes the place of the counter's value in
  the new record (the input is spread after the id), as here for a second
  record with the id of the first.\<close>

lemma createUser_input_id_wins:
  "map (\<lambda>user. get user ''id'')
     (users (snd (createUser clock0 one_user (userC(''id'' \<mapsto> Num (N 1)))))) = [Num (N 1), Num (N 1)]"
  by (simp add: one_user_def run_simps)

text \<open>A stored id \<open>2^53\<close> puts the counter at \<open>2^53\<close>, not above it.\<close>

lemma counter_stops_after_load:
  "map_option (\<lambda>r. nextId (snd r))
     (loadUsers clock0 (constructor (Doc [[''id'' \<mapsto> Num (N 9007199254740992)]]))) =
   Some (N 9007199254740992)"
  by (simp add: loadUsers_def loadUsers_try_def constructor_def notify_def get_def max_number_def
      succ_def limit_def)

section \<open>Properties of persistence\<close>

lemma get_without_undefined: "get (without_undefined obj) k = get obj k"
  by (simp add: get_def without_undefined_def split: option.splits jsval.splits)

lemma without_undefined_id: "no_undefined obj \<Longrightarrow> without_undefined obj = obj"
  by (rule ext) (auto simp: no_undefined_def without_undefined_def ran_def split: option.splits jsval.splits)

lemma max_with_zero_defined:
  "list_all (\<lambda>v. to_number v \<noteq> None) vs \<Longrightarrow> \<exists>m. max_with_zero vs = Some m"
  by (induction vs) auto

text \<open>
  C7. Let the ids of the stored records be in the range of the integer counter
  (integral Numbers, as the service gives them out; \<open>null\<close> and booleans also
  convert). Then \<open>saveUsers\<close> followed by \<open>loadUsers\<close> on a new service
  instance with the same storage slot succeeds and gives back the saved
  records, as many and in the same order, every field of every record with the
  value it had: ids, names, timestamps. The records are what \<open>JSON\<close> keeps of
  them, which is the records themselves unless a property was set to
  \<open>undefined\<close> (such a property is left out and still reads \<open>undefined\<close>).
  The sample data is not seeded: the only events are \<open>usersSaved\<close> and
  \<open>usersLoaded\<close>, and an empty store is read back empty.
\<close>

theorem save_load_roundtrip:
  assumes "list_all (\<lambda>user. to_number (get user ''id'') \<noteq> None) (users s)"
  shows "\<exists>s'. loadUsers clock (new_service (snd (saveUsers s))) = Some (Success (users s'), s') \<and>
           users s' = map without_undefined (users s) \<and>
           length (users s') = length (users s) \<and>
           (\<forall>k. field_values k (users s') = field_values k (users s)) \<and>
           (list_all no_undefined (users s) \<longrightarrow> users s' = users s) \<and>
           trace s' = trace s @
             [\<lparr>event = ''usersSaved'', data = PUsers (users s), recipients = observers s\<rparr>,
              \<lparr>event = ''usersLoaded'', data = PUsers (users s'), recipients = []\<rparr>]"
proof -
  have ids: "map (\<lambda>u. get u ''id'') (map without_undefined (users s)) = map (\<lambda>u. get u ''id'') (users s)"
    by (simp add: get_without_undefined comp_def)
  from assms have "list_all (\<lambda>v. to_number v \<noteq> None) (map (\<lambda>u. get u ''id'') (users s))"
    by (simp add: list_all_iff)
  then obtain m where m: "max_with_zero (map (\<lambda>u. get u ''id'') (users s)) = Some m"
    using max_with_zero_defined by blast
  have fv: "field_values k (map without_undefined (users s)) = field_values k (users s)" for k
    by (simp add: field_values_def get_without_undefined)
  have same: "map without_undefined (users s) = users s" if "list_all no_undefined (users s)"
    using that by (induction "users s") (auto simp: list_all_iff without_undefined_id map_idI)
  define us' where "us' = map without_undefined (users s)"
  define s' where "s' = notify ''usersLoaded'' (PUsers us')
      ((new_service (snd (saveUsers s)))\<lparr>users := us', nextId := succ m\<rparr>)"
  have st: "storage (new_service (snd (saveUsers s))) = Doc us'"
    by (simp add: saveUsers_def new_service_def notify_def JSON_stringify_def Let_def us'_def)
  have m': "max_with_zero (map (\<lambda>u. get u ''id'') us') = Some m"
    unfolding us'_def ids by (rule m)
  have u: "users s' = us'" by (simp add: s'_def notify_def)
  have load: "loadUsers clock (new_service (snd (saveUsers s))) = Some (Success (users s'), s')"
    unfolding u by (simp add: loadUsers_def loadUsers_try_def st m' s'_def notify_def)
  have tr: "trace s' = trace s @
             [\<lparr>event = ''usersSaved'', data = PUsers (users s), recipients = observers s\<rparr>,
              \<lparr>event = ''usersLoaded'', data = PUsers (users s'), recipients = []\<rparr>]"
    unfolding u by (simp add: s'_def saveUsers_def new_service_def notify_def Let_def)
  have u': "users s' = map without_undefined (users s)" by (simp add: u us'_def)
  show ?thesis
  proof (intro exI[of _ s'] conjI allI impI)
    show "loadUsers clock (new_service (snd (saveUsers s))) = Some (Success (users s'), s')"
      by (rule load)
    show "users s' = map without_undefined (users s)" by (rule u')
    show "length (users s') = length (users s)" by (simp add: u')
    show "field_values k (users s') = field_values k (users s)" for k by (simp add: u' fv)
    show "users s' = users s" if "list_all no_undefined (users s)" using that by (simp add: u' same)
    show "trace s' = trace s @
             [\<lparr>event = ''usersSaved'', data = PUsers (users s), recipients = observers s\<rparr>,
              \<lparr>event = ''usersLoaded'', data = PUsers (users s'), recipients = []\<rparr>]"
      by (rule tr)
  qed
qed


lemma no_undefined_userA_record:
  "no_undefined (userA(''id'' \<mapsto> Num (N 1), ''createdAt'' \<mapsto> Str (clock0 0),
            ''lastActive'' \<mapsto> Str (clock0 1), ''status'' \<mapsto> Str ''active''))"
  by (auto simp: no_undefined_def ran_def userA_def split: if_splits)

theorem save_load_roundtrip_witness:
  "list_all (\<lambda>user. to_number (get user ''id'') \<noteq> None) (users one_user) \<and>
   list_all no_undefined (users one_user) \<and>
   map_option (users \<circ> snd) (loadUsers clock0 (new_service (snd (saveUsers one_user)))) =
     Some (users one_user)"
proof -
  have a: "list_all (\<lambda>user. to_number (get user ''id'') \<noteq> None) (users one_user)"
    by (simp add: one_user_users get_def)
  have b: "list_all no_undefined (users one_user)"
    using no_undefined_userA_record by (simp add: one_user_users)
  from save_load_roundtrip[OF a, of clock0] b
  obtain s' where "loadUsers clock0 (new_service (snd (saveUsers one_user))) = Some (Success (users s'), s')"
    "users s' = users one_user" by blast
  with a b show ?thesis by simp
qed

section \<open>Properties of the copy returned by getAllUsers\<close>

lemma lookup_append_old: "r < length h \<Longrightarrow> lookup (h @ cs) r = lookup h r"
  by (simp add: lookup_def nth_append)

lemma lookup_update_other: "r \<noteq> a \<Longrightarrow> lookup (h[a := c]) r = lookup h r"
  by (simp add: lookup_def)

lemma record_at_append_array: "record_at (h @ [Array es]) x = record_at h x"
  by (simp add: record_at_def lookup_def nth_append)

lemma record_at_update_array:
  "lookup h a = Some (Array es) \<Longrightarrow> record_at (h[a := Array es']) x = record_at h x"
  by (cases "x = a") (auto simp: record_at_def lookup_def split: if_splits)

text \<open>
  C4, as the code has it. \<open>getAllUsers\<close> returns a new array, other than the
  store's, with the same elements in the same order. Whatever elements the
  caller gives to the returned array, the store's array keeps its elements and
  the store holds the same records. The elements are the references to the
  store's own record objects: the copy is of the sequence, not of the records.
\<close>

theorem getAllUsers_copy:
  assumes "lookup h usersRef = Some (Array es)"
  shows "fst (getAllUsers h usersRef) \<noteq> usersRef \<and>
         elements (snd (getAllUsers h usersRef)) (fst (getAllUsers h usersRef)) = es \<and>
         held (snd (getAllUsers h usersRef)) (fst (getAllUsers h usersRef)) = held h usersRef \<and>
         held (snd (getAllUsers h usersRef)) usersRef = held h usersRef \<and>
         elements
           (mutate (snd (getAllUsers h usersRef)) (fst (getAllUsers h usersRef)) (SetElements es'))
           usersRef = es \<and>
         held
           (mutate (snd (getAllUsers h usersRef)) (fst (getAllUsers h usersRef)) (SetElements es'))
           usersRef = held h usersRef"
proof -
  from assms have r: "usersRef < length h" by (auto simp: lookup_def split: if_splits)
  have e: "elements h usersRef = es" using assms by (simp add: elements_def)
  define h' where "h' = h @ [Array es]"
  have g: "getAllUsers h usersRef = (length h, h')" by (simp add: getAllUsers_def alloc_def e h'_def)
  have old: "lookup h' usersRef = Some (Array es)"
    using r assms by (simp add: h'_def lookup_append_old)
  have new: "lookup h' (length h) = Some (Array es)" by (simp add: h'_def lookup_def)
  have rec: "record_at h' = record_at h"
    by (rule ext) (simp add: h'_def record_at_append_array)
  define h'' where "h'' = mutate h' (length h) (SetElements es')"
  have h'': "h'' = h'[length h := Array es']" by (simp add: h''_def new)
  have old'': "lookup h'' usersRef = Some (Array es)"
    using r by (simp add: h'' lookup_update_other old)
  have rec'': "record_at h'' = record_at h"
    by (rule ext) (simp add: h'' record_at_update_array[OF new] rec)
  show ?thesis
    using r unfolding g fst_conv snd_conv h''_def[symmetric]
    by (simp add: held_def elements_def old new old'' rec rec'' assms)
qed

theorem getAllUsers_copy_witness:
  "lookup heap0 0 = Some (Array [1]) \<and>
   getAllUsers heap0 0 = (2, [Array [1], Object userA, Array [1]]) \<and>
   held (mutate (snd (getAllUsers heap0 0)) (fst (getAllUsers heap0 0)) (SetElements [])) 0 =
     held heap0 0 \<and>
   held heap0 0 = [Some userA]"
proof -
  have a: "lookup heap0 0 = Some (Array [1])" by (simp add: heap0_def lookup_def)
  have c: "getAllUsers heap0 0 = (2, [Array [1], Object userA, Array [1]])"
    by (simp add: getAllUsers_def alloc_def elements_def lookup_def heap0_def)
  have d: "held heap0 0 = [Some userA]"
    by (simp add: held_def elements_def record_at_def lookup_def heap0_def)
  from a c d getAllUsers_copy[OF a, of "[]"] show ?thesis by simp
qed

text \<open>The claim C4 as stated, that no mutation of a record in the returned
  value changes the store, fails: an assignment to the \<open>email\<close> of the first
  element of the returned array changes the email of the store's record.\<close>

theorem getAllUsers_shares_records_counterexample:
  "emails_held heap0 0 = [Some (Str ''a@b.com'')] \<and>
   emails_held
     (mutate (snd (getAllUsers heap0 0)) (fst (getAllUsers heap0 0))
        (SetProperty 0 ''email'' (Str ''changed''))) 0 = [Some (Str ''changed'')]"
  by (simp add: emails_held_def held_def elements_def record_at_def lookup_def heap0_def
      getAllUsers_def alloc_def userA_def get_def)

end
